theory Spec2Isabelle
  imports Main
begin

section \<open>Errors\<close>

text \<open>
  The source throws plain \<open>Error\<close> objects that differ by their message only. The model
  keeps one constructor per kind of message:
  \<^item> \<open>OutOfRange\<close>: "Selectable offset ... is out of range.", "Document screen positions
    cannot be determined for range ...", "Position ... is not in the document.",
    "Error inserting child to doc view, offset ... is out of range.";
  \<^item> \<open>StructuralViolation\<close>: "Cannot delete child, child not found.".
  A function that may throw returns \<open>error + 'a\<close>, with \<open>Inl\<close> for the thrown error.
\<close>

datatype error = OutOfRange | StructuralViolation

section \<open>Render tree: DocRenderNode (packages/core/src/render/DocRenderNode.ts)\<close>

subsection \<open>The children of the document node\<close>

text \<open>
  Modelled from the spec: the classes \<open>BlockRenderNode\<close>, \<open>InlineRenderNode\<close> and
  \<open>AtomicRenderNode\<close> below the document node are not part of the source at hand. The
  specification gives their measures: a structural node has selectable size the sum of
  its children's selectable sizes and model size 2 plus the sum of its children's model
  sizes; an atomic node has its content length as both sizes. A structural node converts
  a selectable offset by the same walk as the document node (one position for its opening
  delimiter, then the sizes of the children passed); inside an atomic node the two scales
  coincide. The first argument of each constructor is the node's identifier.
\<close>

datatype RenderNode =
    AtomicRenderNode string nat
  | BranchRenderNode string "RenderNode list"

fun childSelectableSize :: "RenderNode \<Rightarrow> nat" where
  "childSelectableSize (AtomicRenderNode i n) = n"
| "childSelectableSize (BranchRenderNode i cs) = sum_list (map childSelectableSize cs)"

fun childModelSize :: "RenderNode \<Rightarrow> nat" where
  "childModelSize (AtomicRenderNode i n) = n"
| "childModelSize (BranchRenderNode i cs) = 2 + sum_list (map childModelSize cs)"

text \<open>
  \<open>convertLoop\<close> is the \<open>for\<close> loop of
  \<open>DocRenderNode.convertSelectableOffsetToModelOffset\<close> (lines 107 to 116): its
  arguments are the children not yet visited, \<open>cumulatedSelectableOffset\<close>,
  \<open>cumulatedModelOffset\<close> and the offset asked for. The loop returns from the first
  child whose span passes the offset, adding the child's own answer to the model offset
  accumulated so far; an error thrown by the child propagates; when the children are
  exhausted the loop falls through to the \<open>throw\<close>. \<open>childConvert\<close> is the child's
  method called on line 111.
\<close>

fun childConvert :: "RenderNode \<Rightarrow> int \<Rightarrow> error + int"
  and convertLoop :: "RenderNode list \<Rightarrow> int \<Rightarrow> int \<Rightarrow> int \<Rightarrow> error + int" where
  "childConvert (AtomicRenderNode i n) selectableOffset = Inr selectableOffset"
| "childConvert (BranchRenderNode i cs) selectableOffset = convertLoop cs 0 1 selectableOffset"
| "convertLoop [] cumulatedSelectableOffset cumulatedModelOffset selectableOffset =
     Inl OutOfRange"
| "convertLoop (child # rest) cumulatedSelectableOffset cumulatedModelOffset selectableOffset =
     (if cumulatedSelectableOffset + int (childSelectableSize child) > selectableOffset
      then (case childConvert child (selectableOffset - cumulatedSelectableOffset) of
              Inl e \<Rightarrow> Inl e
            | Inr m \<Rightarrow> Inr (cumulatedModelOffset + m))
      else convertLoop rest
             (cumulatedSelectableOffset + int (childSelectableSize child))
             (cumulatedModelOffset + int (childModelSize child))
             selectableOffset)"

subsection \<open>The document node\<close>

text \<open>
  The fields of the class, with the two caches it inherits: \<open>undefined\<close> is \<open>None\<close>.
  The subscriber list plays no part in the measures and is left out. The parent pointer
  that \<open>insertChild\<close> and \<open>deleteChild\<close> set on the child is not modelled: none of the
  functions below reads it.
\<close>

record DocRenderNode =
  nodeId :: string
  width :: int
  height :: int
  padding :: int
  children :: "RenderNode list"
  selectableSize :: "nat option"
  modelSize :: "nat option"

text \<open>
  The model element read by \<open>onModelUpdated\<close>: the values of its getters \<open>getID\<close>,
  \<open>getWidth\<close>, \<open>getHeight\<close> and \<open>getPadding\<close>.
\<close>

record DocElement =
  elementID :: string
  elementWidth :: int
  elementHeight :: int
  elementPadding :: int

definition newDocRenderNode :: "string \<Rightarrow> DocRenderNode" where
  "newDocRenderNode i =
     \<lparr> nodeId = i, width = 0, height = 0, padding = 0, children = [],
       selectableSize = None, modelSize = None \<rparr>"

text \<open>
  Modelled from the spec: \<open>clearCache\<close> is inherited from \<open>RenderNode\<close>, which is not
  part of the source at hand; it invalidates the cached selectable size and model size.
\<close>

definition clearCache :: "DocRenderNode \<Rightarrow> DocRenderNode" where
  "clearCache d = d\<lparr> selectableSize := None, modelSize := None \<rparr>"

text \<open>
  \<open>Array.prototype.splice(start, 0, x)\<close>: a negative start counts from the end and stops
  at 0, a start beyond the length is the length.
\<close>

definition spliceInsert :: "int \<Rightarrow> 'a \<Rightarrow> 'a list \<Rightarrow> 'a list" where
  "spliceInsert start x xs =
     (let len = int (length xs);
          k = (if start < 0 then max (len + start) 0 else min start len)
      in take (nat k) xs @ [x] @ drop (nat k) xs)"

definition insertChild :: "RenderNode \<Rightarrow> int option \<Rightarrow> DocRenderNode \<Rightarrow> DocRenderNode" where
  "insertChild child offset d =
     clearCache
       (case offset of
          None \<Rightarrow> d\<lparr> children := children d @ [child] \<rparr>
        | Some k \<Rightarrow> d\<lparr> children := spliceInsert k child (children d) \<rparr>)"

text \<open>
  \<open>indexOf\<close> finds the first position holding the child and \<open>splice(childOffset, 1)\<close>
  removes that position: \<open>remove1\<close>. The throw comes before any change of the node.
\<close>

definition deleteChild :: "RenderNode \<Rightarrow> DocRenderNode \<Rightarrow> error + DocRenderNode" where
  "deleteChild child d =
     (if child \<notin> set (children d) then Inl StructuralViolation
      else Inr (clearCache (d\<lparr> children := remove1 child (children d) \<rparr>)))"

text \<open>The getters return the value and the node with its cache filled.\<close>

definition getSelectableSize :: "DocRenderNode \<Rightarrow> nat \<times> DocRenderNode" where
  "getSelectableSize d =
     (case selectableSize d of
        None \<Rightarrow>
          (let s = fold (\<lambda>child acc. acc + childSelectableSize child) (children d) 0
           in (s, d\<lparr> selectableSize := Some s \<rparr>))
      | Some s \<Rightarrow> (s, d))"

definition getModelSize :: "DocRenderNode \<Rightarrow> nat \<times> DocRenderNode" where
  "getModelSize d =
     (case modelSize d of
        None \<Rightarrow>
          (let s = fold (\<lambda>child acc. acc + childModelSize child) (children d) 2
           in (s, d\<lparr> modelSize := Some s \<rparr>))
      | Some s \<Rightarrow> (s, d))"

definition convertSelectableOffsetToModelOffset :: "DocRenderNode \<Rightarrow> int \<Rightarrow> error + int" where
  "convertSelectableOffsetToModelOffset d selectableOffset =
     convertLoop (children d) 0 1 selectableOffset"

definition onModelUpdated :: "DocElement \<Rightarrow> DocRenderNode \<Rightarrow> DocRenderNode" where
  "onModelUpdated element d =
     clearCache (d\<lparr> nodeId := elementID element, width := elementWidth element,
                     height := elementHeight element, padding := elementPadding element \<rparr>)"

text \<open>
  A sequence of calls on one document node. A call of \<open>deleteChild\<close> that throws leaves
  the node as it was, and the calls after it see that node.
\<close>

datatype DocOp =
    InsertChild RenderNode "int option"
  | DeleteChild RenderNode
  | OnModelUpdated DocElement
  | GetSelectableSize
  | GetModelSize

fun applyOp :: "DocOp \<Rightarrow> DocRenderNode \<Rightarrow> DocRenderNode" where
  "applyOp (InsertChild child offset) d = insertChild child offset d"
| "applyOp (DeleteChild child) d = (case deleteChild child d of Inl e \<Rightarrow> d | Inr d' \<Rightarrow> d')"
| "applyOp (OnModelUpdated element) d = onModelUpdated element d"
| "applyOp GetSelectableSize d = snd (getSelectableSize d)"
| "applyOp GetModelSize d = snd (getModelSize d)"

definition applyOps :: "DocOp list \<Rightarrow> DocRenderNode \<Rightarrow> DocRenderNode" where
  "applyOps ops d = fold applyOp ops d"

text \<open>
  A cache is valid when it is empty or holds the value the getter would compute. Every
  node built by the constructor and changed by the calls above has valid caches
  (\<open>applyOps_cacheValid\<close>).
\<close>

definition cacheValid :: "DocRenderNode \<Rightarrow> bool" where
  "cacheValid d \<longleftrightarrow>
     (selectableSize d = None \<or>
      selectableSize d = Some (sum_list (map childSelectableSize (children d)))) \<and>
     (modelSize d = None \<or>
      modelSize d = Some (2 + sum_list (map childModelSize (children d))))"


text \<open>The node used in the examples: two paragraphs, of 3 and of 2 characters.\<close>

definition exampleDoc :: DocRenderNode where
  "exampleDoc =
     applyOps
       [InsertChild
          (BranchRenderNode ''p1'' [BranchRenderNode ''t1'' [AtomicRenderNode ''a1'' 3]]) None,
        GetSelectableSize,
        InsertChild
          (BranchRenderNode ''p2'' [BranchRenderNode ''t2'' [AtomicRenderNode ''a2'' 2]]) (Some 5)]
       (newDocRenderNode ''doc'')"

section \<open>Layout views: DocumentView (src/editor/view/DocumentView.ts)\<close>

text \<open>
  Measures (widths, heights, positions) are JavaScript numbers; the model takes them as
  integers, and sizes, which count positions, as naturals.
\<close>

record DocumentViewConfig =
  pageWidth :: int
  pageHeight :: int
  pagePaddingTop :: int
  pagePaddingBottom :: int
  pagePaddingLeft :: int
  pagePaddingRight :: int

text \<open>
  A box view with the values of its \<open>getWidth()\<close> and \<open>getSize()\<close>. A line view is the
  list of its box views (\<open>getBoxViews()\<close>), a page view the list of its line views
  (\<open>getLineViews()\<close>).
\<close>

record BoxView =
  boxWidth :: int
  boxSize :: nat

type_synonym LineView = "BoxView list"

type_synonym PageView = "LineView list"

text \<open>
  Modelled from the spec: \<open>LineView.getSize\<close> and \<open>PageView.getSize\<close> are not part of the
  source at hand; the size of a layout node is the span of positions it covers, the sum of
  the sizes of what it contains.
\<close>

definition lineSize :: "LineView \<Rightarrow> nat" where
  "lineSize lineView = sum_list (map boxSize lineView)"

definition pageSize :: "PageView \<Rightarrow> nat" where
  "pageSize pageView = sum_list (map lineSize pageView)"

definition lineWidth :: "LineView \<Rightarrow> int" where
  "lineWidth lineView = sum_list (map boxWidth lineView)"

subsection \<open>Line breaking: buildLineViews\<close>

definition pageContentWidth :: "DocumentViewConfig \<Rightarrow> int" where
  "pageContentWidth config = pageWidth config - pagePaddingLeft config - pagePaddingRight config"

text \<open>
  The body of the inner \<open>forEach\<close> (lines 132 to 145). The state is the line views pushed
  before the current one, the box views of the current line view (the variable
  \<open>lineView\<close>, always the last one pushed) and \<open>cumulatedWidth\<close>.
\<close>

fun placeBoxView ::
  "int \<Rightarrow> BoxView \<Rightarrow> LineView list \<times> LineView \<times> int \<Rightarrow> LineView list \<times> LineView \<times> int" where
  "placeBoxView contentWidth boxView (pushed, lineView, cumulatedWidth) =
     (if cumulatedWidth + boxWidth boxView > contentWidth
      then (pushed @ [lineView], [boxView], 0 + boxWidth boxView)
      else (pushed, lineView @ [boxView], cumulatedWidth + boxWidth boxView))"

text \<open>
  The body of the outer \<open>forEach\<close> (lines 123 to 146): a block starts a line view of its
  own, with \<open>cumulatedWidth\<close> 0.
\<close>

definition buildBlockLineViews :: "int \<Rightarrow> BoxView list \<Rightarrow> LineView list \<Rightarrow> LineView list" where
  "buildBlockLineViews contentWidth boxViews lineViews =
     (case fold (placeBoxView contentWidth) boxViews (lineViews, [], 0) of
        (pushed, lineView, cumulatedWidth) \<Rightarrow> pushed @ [lineView])"

definition buildLineViews :: "DocumentViewConfig \<Rightarrow> BoxView list list \<Rightarrow> LineView list" where
  "buildLineViews config boxViewBlocks =
     fold (buildBlockLineViews (pageContentWidth config)) boxViewBlocks []"

subsection \<open>Pagination: buildPageViews\<close>

definition pageContentHeight :: "DocumentViewConfig \<Rightarrow> int" where
  "pageContentHeight config = pageHeight config - pagePaddingTop config - pagePaddingBottom config"

text \<open>
  The body of the \<open>forEach\<close> (lines 175 to 190), with the page views pushed before the
  current one, the line views of the current page view and \<open>cumulatedHeight\<close>.
  \<open>LineView.getHeight\<close> is not part of the source at hand: it is the parameter
  \<open>getHeight\<close>, and the line views are of any type.
\<close>

fun placeLineView ::
  "('l \<Rightarrow> int) \<Rightarrow> int \<Rightarrow> 'l \<Rightarrow> 'l list list \<times> 'l list \<times> int \<Rightarrow> 'l list list \<times> 'l list \<times> int" where
  "placeLineView getHeight contentHeight lineView (pushed, pageView, cumulatedHeight) =
     (if cumulatedHeight + getHeight lineView > contentHeight
      then (pushed @ [pageView], [lineView], 0 + getHeight lineView)
      else (pushed, pageView @ [lineView], cumulatedHeight + getHeight lineView))"

definition buildPageViews :: "('l \<Rightarrow> int) \<Rightarrow> DocumentViewConfig \<Rightarrow> 'l list \<Rightarrow> 'l list list" where
  "buildPageViews getHeight config lineViews =
     (case fold (placeLineView getHeight (pageContentHeight config)) lineViews ([], [], 0) of
        (pushed, pageView, cumulatedHeight) \<Rightarrow> pushed @ [pageView])"

definition linesHeight :: "('l \<Rightarrow> int) \<Rightarrow> 'l list \<Rightarrow> int" where
  "linesHeight getHeight pageView = sum_list (map getHeight pageView)"

subsection \<open>The document view and its position searches\<close>

text \<open>
  \<open>documentSize\<close> is the value of \<open>this.documentElement.getSize()\<close>; the document element
  is not part of the source at hand.
\<close>

record DocumentView =
  documentSize :: nat
  pageViews :: "PageView list"

definition pagesSize :: "PageView list \<Rightarrow> nat" where
  "pagesSize pvs = sum_list (map pageSize pvs)"




text \<open>
  The three nested loops of \<open>getWordStartPosition\<close> (lines 382 to 440). A loop that ends
  without returning hands \<open>currentPosition\<close> on to the loop around it (\<open>Next\<close>). Each
  loop carries the element before the current one, if any: \<open>o > 0\<close> is
  \<open>previousWordView \<noteq> None\<close> and then \<open>wordViews[o - 1]\<close> is its content, and likewise
  for \<open>m\<close> and \<open>n\<close>.
\<close>

datatype loopResult = Return int | Next int

text \<open>Lines 408 to 434: the step to the previous word once the position is a word start.\<close>

fun tryPreviousWord :: "BoxView option \<Rightarrow> LineView option \<Rightarrow> PageView option \<Rightarrow> int \<Rightarrow> int" where
  "tryPreviousWord (Some previousWordView) previousLineView previousPageView currentPosition =
     currentPosition - int (boxSize previousWordView)"
| "tryPreviousWord None (Some previousLineView) previousPageView currentPosition =
     (if length previousLineView > 0
      then currentPosition - int (boxSize (last previousLineView))
      else currentPosition)"
| "tryPreviousWord None None (Some previousPageView) currentPosition =
     (if length previousPageView > 0
      then (if length (last previousPageView) > 0
            then currentPosition - int (boxSize (last (last previousPageView)))
            else currentPosition)
      else currentPosition)"
| "tryPreviousWord None None None currentPosition = currentPosition"

fun wordStartLoop ::
  "BoxView option \<Rightarrow> BoxView list \<Rightarrow> LineView option \<Rightarrow> PageView option \<Rightarrow> int \<Rightarrow> int \<Rightarrow> loopResult" where
  "wordStartLoop previousWordView [] previousLineView previousPageView currentPosition position =
     Next currentPosition"
| "wordStartLoop previousWordView (wordView # rest) previousLineView previousPageView
     currentPosition position =
     (if currentPosition + int (boxSize wordView) \<le> position
      then wordStartLoop (Some wordView) rest previousLineView previousPageView
             (currentPosition + int (boxSize wordView)) position
      else Return (if position = currentPosition
                   then tryPreviousWord previousWordView previousLineView previousPageView
                          currentPosition
                   else currentPosition))"

fun lineStartLoop ::
  "LineView option \<Rightarrow> LineView list \<Rightarrow> PageView option \<Rightarrow> int \<Rightarrow> int \<Rightarrow> loopResult" where
  "lineStartLoop previousLineView [] previousPageView currentPosition position =
     Next currentPosition"
| "lineStartLoop previousLineView (lineView # rest) previousPageView currentPosition position =
     (if currentPosition + int (lineSize lineView) \<le> position
      then lineStartLoop (Some lineView) rest previousPageView
             (currentPosition + int (lineSize lineView)) position
      else (case wordStartLoop None lineView previousLineView previousPageView
                   currentPosition position of
              Return r \<Rightarrow> Return r
            | Next currentPosition1 \<Rightarrow>
                lineStartLoop (Some lineView) rest previousPageView currentPosition1 position))"

fun pageStartLoop :: "PageView option \<Rightarrow> PageView list \<Rightarrow> int \<Rightarrow> int \<Rightarrow> error + int" where
  "pageStartLoop previousPageView [] currentPosition position = Inl OutOfRange"
| "pageStartLoop previousPageView (pageView # rest) currentPosition position =
     (if currentPosition + int (pageSize pageView) \<le> position
      then pageStartLoop (Some pageView) rest (currentPosition + int (pageSize pageView)) position
      else (case lineStartLoop None pageView previousPageView currentPosition position of
              Return r \<Rightarrow> Inr r
            | Next currentPosition1 \<Rightarrow>
                pageStartLoop (Some pageView) rest currentPosition1 position))"

definition getWordStartPosition :: "DocumentView \<Rightarrow> int \<Rightarrow> error + int" where
  "getWordStartPosition dv position = pageStartLoop None (pageViews dv) 0 position"

text \<open>
  \<open>getWordEndPosition\<close> (lines 447 to 505) runs the same loops from the last element to
  the first: the list argument of each loop holds the elements still to visit, last
  first, and the element carried along is the one after the current one
  (\<open>o < wordViews.length - 1\<close> is \<open>nextWordView \<noteq> None\<close>). The word taken from the next
  line or page is its first one.
\<close>

fun tryNextWord :: "BoxView option \<Rightarrow> LineView option \<Rightarrow> PageView option \<Rightarrow> int \<Rightarrow> int" where
  "tryNextWord (Some nextWordView) nextLineView nextPageView currentPosition =
     currentPosition + int (boxSize nextWordView)"
| "tryNextWord None (Some nextLineView) nextPageView currentPosition =
     (if length nextLineView > 0
      then currentPosition + int (boxSize (hd nextLineView))
      else currentPosition)"
| "tryNextWord None None (Some nextPageView) currentPosition =
     (if length nextPageView > 0
      then (if length (hd nextPageView) > 0
            then currentPosition + int (boxSize (hd (hd nextPageView)))
            else currentPosition)
      else currentPosition)"
| "tryNextWord None None None currentPosition = currentPosition"

fun wordEndLoop ::
  "BoxView option \<Rightarrow> BoxView list \<Rightarrow> LineView option \<Rightarrow> PageView option \<Rightarrow> int \<Rightarrow> int \<Rightarrow> loopResult" where
  "wordEndLoop nextWordView [] nextLineView nextPageView currentPosition position =
     Next currentPosition"
| "wordEndLoop nextWordView (wordView # rest) nextLineView nextPageView currentPosition position =
     (if currentPosition - int (boxSize wordView) \<ge> position
      then wordEndLoop (Some wordView) rest nextLineView nextPageView
             (currentPosition - int (boxSize wordView)) position
      else Return (if position = currentPosition
                   then tryNextWord nextWordView nextLineView nextPageView currentPosition
                   else currentPosition))"

fun lineEndLoop ::
  "LineView option \<Rightarrow> LineView list \<Rightarrow> PageView option \<Rightarrow> int \<Rightarrow> int \<Rightarrow> loopResult" where
  "lineEndLoop nextLineView [] nextPageView currentPosition position = Next currentPosition"
| "lineEndLoop nextLineView (lineView # rest) nextPageView currentPosition position =
     (if currentPosition - int (lineSize lineView) \<ge> position
      then lineEndLoop (Some lineView) rest nextPageView
             (currentPosition - int (lineSize lineView)) position
      else (case wordEndLoop None (rev lineView) nextLineView nextPageView
                   currentPosition position of
              Return r \<Rightarrow> Return r
            | Next currentPosition1 \<Rightarrow>
                lineEndLoop (Some lineView) rest nextPageView currentPosition1 position))"

fun pageEndLoop :: "PageView option \<Rightarrow> PageView list \<Rightarrow> int \<Rightarrow> int \<Rightarrow> error + int" where
  "pageEndLoop nextPageView [] currentPosition position = Inl OutOfRange"
| "pageEndLoop nextPageView (pageView # rest) currentPosition position =
     (if currentPosition - int (pageSize pageView) \<ge> position
      then pageEndLoop (Some pageView) rest (currentPosition - int (pageSize pageView)) position
      else (case lineEndLoop None (rev pageView) nextPageView currentPosition position of
              Return r \<Rightarrow> Inr r
            | Next currentPosition1 \<Rightarrow>
                pageEndLoop (Some pageView) rest currentPosition1 position))"

definition getWordEndPosition :: "DocumentView \<Rightarrow> int \<Rightarrow> error + int" where
  "getWordEndPosition dv position =
     pageEndLoop None (rev (pageViews dv)) (int (documentSize dv) - 1) position"

text \<open>
  The views used in the examples: the boxes of "Hello ", "world" and "Foo", each as wide
  as it has characters; a document view of one page with "Hello " and "world" on one line
  and "Foo" on the next; and the configuration of a page 10 wide and 14 high whose
  paddings leave a content width of 6 and a content height of 10.
\<close>

definition exampleConfig :: DocumentViewConfig where
  "exampleConfig =
     \<lparr> pageWidth = 10, pageHeight = 14, pagePaddingTop = 1, pagePaddingBottom = 3,
       pagePaddingLeft = 2, pagePaddingRight = 2 \<rparr>"

definition helloBox :: BoxView where
  "helloBox = \<lparr> boxWidth = 6, boxSize = 6 \<rparr>"

definition worldBox :: BoxView where
  "worldBox = \<lparr> boxWidth = 5, boxSize = 5 \<rparr>"

definition fooBox :: BoxView where
  "fooBox = \<lparr> boxWidth = 3, boxSize = 3 \<rparr>"

definition twoWideBox :: BoxView where
  "twoWideBox = \<lparr> boxWidth = 2, boxSize = 2 \<rparr>"

definition fourWideBox :: BoxView where
  "fourWideBox = \<lparr> boxWidth = 4, boxSize = 4 \<rparr>"


definition exampleView :: DocumentView where
  "exampleView =
     \<lparr> documentSize = 14,
       pageViews =
         [[[helloBox, worldBox], [fooBox]]] \<rparr>"


section \<open>Cursor commands (packages/core/src/command/handlers/cursor.ts)\<close>

subsection \<open>The layout service\<close>

text \<open>
  Modelled from the spec: the layout service and its layout nodes are not part of the
  source at hand. The layout tree is pages of lines of words. A node has a \<open>size\<close>, the
  span of positions it covers; a word also has the \<open>trimmedSize\<close> the handlers read, and a
  line the function \<open>convertCoordinatesToPosition\<close>, which is a field of the model since
  its code is missing. \<open>describePosition(position).atWord()\<close> and \<open>.atLine()\<close> locate the
  node whose span holds the position and give the position's offset in that node; the
  node's \<open>previousCrossParentSibling\<close> and \<open>nextCrossParentSibling\<close> are the nodes before
  and after it at the same depth, across parents. A position outside the document is an
  out-of-range error.
\<close>

record LayoutWord =
  wordSize :: nat
  trimmedSize :: nat

record LayoutLine =
  lineWords :: "LayoutWord list"
  convertCoordinatesToPosition :: "int \<Rightarrow> int \<Rightarrow> int"

type_synonym Layout = "LayoutLine list list"

definition layoutLineSize :: "LayoutLine \<Rightarrow> nat" where
  "layoutLineSize l = sum_list (map wordSize (lineWords l))"

definition allLines :: "Layout \<Rightarrow> LayoutLine list" where
  "allLines layout = concat layout"

definition allWords :: "Layout \<Rightarrow> LayoutWord list" where
  "allWords layout = concat (map lineWords (allLines layout))"

record 'n Described =
  node :: 'n
  nodePosition :: int
  previousCrossParentSibling :: "'n option"
  nextCrossParentSibling :: "'n option"

fun locate :: "('n \<Rightarrow> nat) \<Rightarrow> 'n option \<Rightarrow> 'n list \<Rightarrow> int \<Rightarrow> error + 'n Described" where
  "locate sz previous [] position = Inl OutOfRange"
| "locate sz previous (x # xs) position =
     (if position < int (sz x)
      then Inr \<lparr> node = x, nodePosition = position, previousCrossParentSibling = previous,
                 nextCrossParentSibling = (case xs of [] \<Rightarrow> None | y # ys \<Rightarrow> Some y) \<rparr>
      else locate sz (Some x) xs (position - int (sz x)))"

definition atWord :: "Layout \<Rightarrow> int \<Rightarrow> error + LayoutWord Described" where
  "atWord layout position =
     (if position < 0 then Inl OutOfRange else locate wordSize None (allWords layout) position)"

definition atLine :: "Layout \<Rightarrow> int \<Rightarrow> error + LayoutLine Described" where
  "atLine layout position =
     (if position < 0 then Inl OutOfRange
      else locate layoutLineSize None (allLines layout) position)"

subsection \<open>The boundary searches (lines 8 to 48)\<close>

definition atPreviousLine :: "int \<Rightarrow> int \<Rightarrow> Layout \<Rightarrow> error + int" where
  "atPreviousLine position leftLock layout =
     (case atLine layout position of
        Inl e \<Rightarrow> Inl e
      | Inr d \<Rightarrow>
          (case previousCrossParentSibling d of
             None \<Rightarrow> Inr (position - nodePosition d)
           | Some previousLine \<Rightarrow>
               Inr (position - nodePosition d - int (layoutLineSize previousLine)
                    + convertCoordinatesToPosition previousLine leftLock 0)))"

definition atNextLine :: "int \<Rightarrow> int \<Rightarrow> Layout \<Rightarrow> error + int" where
  "atNextLine position leftLock layout =
     (case atLine layout position of
        Inl e \<Rightarrow> Inl e
      | Inr d \<Rightarrow>
          (case nextCrossParentSibling d of
             None \<Rightarrow> Inr (position - nodePosition d + int (layoutLineSize (node d)) - 1)
           | Some nextLine \<Rightarrow>
               Inr (position - nodePosition d + int (layoutLineSize (node d))
                    + convertCoordinatesToPosition nextLine leftLock 0)))"

definition atPreviousWord :: "int \<Rightarrow> Layout \<Rightarrow> error + int" where
  "atPreviousWord position layout =
     (case atWord layout position of
        Inl e \<Rightarrow> Inl e
      | Inr d \<Rightarrow>
          (if nodePosition d > 0 then Inr (position - nodePosition d)
           else (case previousCrossParentSibling d of
                   None \<Rightarrow> Inr position
                 | Some previousWord \<Rightarrow> Inr (position - int (wordSize previousWord)))))"

definition atNextWord :: "int \<Rightarrow> Layout \<Rightarrow> error + int" where
  "atNextWord position layout =
     (case atWord layout position of
        Inl e \<Rightarrow> Inl e
      | Inr d \<Rightarrow>
          (if nodePosition d < int (wordSize (node d)) - 1
           then Inr (position - nodePosition d + int (trimmedSize (node d)))
           else (case nextCrossParentSibling d of
                   None \<Rightarrow> Inr position
                 | Some nextWord \<Rightarrow>
                     Inr (position - nodePosition d + int (wordSize (node d))
                          + int (trimmedSize (node d))))))"

text \<open>The two round trips: the forward search applied to the result of the backward one.\<close>

definition nextAfterPreviousWord :: "int \<Rightarrow> Layout \<Rightarrow> error + int" where
  "nextAfterPreviousWord position layout =
     (case atPreviousWord position layout of
        Inl e \<Rightarrow> Inl e
      | Inr q \<Rightarrow> atNextWord q layout)"

definition nextAfterPreviousLine :: "int \<Rightarrow> int \<Rightarrow> Layout \<Rightarrow> error + int" where
  "nextAfterPreviousLine position leftLock layout =
     (case atPreviousLine position leftLock layout of
        Inl e \<Rightarrow> Inl e
      | Inr q \<Rightarrow> atNextLine q leftLock layout)"

text \<open>
  The layout used in the examples: one page, the line "Hello world " of the words
  "Hello " and "world ", then the line "Foo" of one word. A character is one unit wide,
  and a coordinate beyond a line's last position is that position.
\<close>

definition exampleLine1 :: LayoutLine where
  "exampleLine1 =
     \<lparr> lineWords = [\<lparr> wordSize = 6, trimmedSize = 5 \<rparr>, \<lparr> wordSize = 6, trimmedSize = 5 \<rparr>],
       convertCoordinatesToPosition = (\<lambda>x y. max 0 (min x 11)) \<rparr>"

definition exampleLine2 :: LayoutLine where
  "exampleLine2 =
     \<lparr> lineWords = [\<lparr> wordSize = 3, trimmedSize = 3 \<rparr>],
       convertCoordinatesToPosition = (\<lambda>x y. max 0 (min x 2)) \<rparr>"

definition exampleLayout :: Layout where
  "exampleLayout = [[exampleLine1, exampleLine2]]"

subsection \<open>The command handlers\<close>

record Cursor =
  anchor :: int
  head :: int
  leftLock :: int

text \<open>
  Modelled from the spec: the class \<open>Transformation\<close> the handlers construct
  (transform/transformation) is not part of the source at hand. It is an ordered list of
  content operations with a target \<open>(head, anchor?, keepLeftLock?)\<close>; an argument left
  out is \<open>None\<close> for the anchor and \<open>False\<close> for the flag. Content operations are opaque.
\<close>

record Transformation =
  operations :: "unit list"
  targetHead :: int
  targetAnchor :: "int option"
  keepLeftLock :: bool

definition newTransformation :: "unit list \<Rightarrow> int \<Rightarrow> int option \<Rightarrow> bool \<Rightarrow> Transformation" where
  "newTransformation ops h a k =
     \<lparr> operations = ops, targetHead = h, targetAnchor = a, keepLeftLock = k \<rparr>"

text \<open>
  A handler reads the cursor (\<open>None\<close> when \<open>getCursor()\<close> gives none) and either returns
  without doing anything (\<open>None\<close>) or hands one transformation to
  \<open>applyTransformation\<close> (\<open>Some\<close>).
\<close>

definition MoveBackwardCommandHandler :: "Cursor option \<Rightarrow> Transformation option" where
  "MoveBackwardCommandHandler cursor =
     (case cursor of
        None \<Rightarrow> None
      | Some c \<Rightarrow>
          (let newPosition = (if anchor c = head c then anchor c - 1 else min (anchor c) (head c))
           in Some (newTransformation [] newPosition None False)))"

definition MoveForwardCommandHandler :: "Cursor option \<Rightarrow> Transformation option" where
  "MoveForwardCommandHandler cursor =
     (case cursor of
        None \<Rightarrow> None
      | Some c \<Rightarrow>
          (let newPosition = (if anchor c = head c then anchor c + 1 else max (anchor c) (head c))
           in Some (newTransformation [] newPosition None False)))"

definition MoveHeadBackwardCommandHandler :: "Cursor option \<Rightarrow> Transformation option" where
  "MoveHeadBackwardCommandHandler cursor =
     (case cursor of
        None \<Rightarrow> None
      | Some c \<Rightarrow>
          (let newHead = max 0 (head c - 1)
           in Some (newTransformation [] newHead (Some (anchor c)) False)))"

text \<open>\<open>contentSize\<close> is the value of \<open>modelService.getDocContentSize()\<close>.\<close>

definition MoveHeadForward :: "int \<Rightarrow> Cursor option \<Rightarrow> Transformation option" where
  "MoveHeadForward contentSize cursor =
     (case cursor of
        None \<Rightarrow> None
      | Some c \<Rightarrow>
          (let newHead = min (contentSize - 1) (head c + 1)
           in Some (newTransformation [] newHead (Some (anchor c)) False)))"

section \<open>DocView (packages/taleweaver-core/src/view/DocView.ts)\<close>

text \<open>
  A page view is known by its DOM container, a DOM node by its identity. The view holds
  its children and the child nodes of its own container.
\<close>

record PageViewNode =
  getDOMContainer :: nat

record DocView =
  viewChildren :: "PageViewNode list"
  childNodes :: "nat list"

text \<open>
  The two DOM calls. \<open>appendChild\<close> moves a node that is already a child to the end.
  \<open>insertBefore\<close> with no reference node appends; with the node itself as reference it
  leaves the node where it is; otherwise the node is taken out and put before the
  reference.
\<close>

definition appendChild :: "nat \<Rightarrow> nat list \<Rightarrow> nat list" where
  "appendChild n ns = remove1 n ns @ [n]"

definition insertBefore :: "nat \<Rightarrow> nat option \<Rightarrow> nat list \<Rightarrow> nat list" where
  "insertBefore n reference ns =
     (case reference of
        None \<Rightarrow> appendChild n ns
      | Some r \<Rightarrow>
          (if r = n then ns
           else (let ns1 = remove1 n ns
                 in takeWhile (\<lambda>x. x \<noteq> r) ns1 @ [n] @ dropWhile (\<lambda>x. x \<noteq> r) ns1)))"

text \<open>\<open>childNodes[i]\<close>: \<open>undefined\<close> outside the list.\<close>

definition childNodeAt :: "nat list \<Rightarrow> int \<Rightarrow> nat option" where
  "childNodeAt ns i = (if 0 \<le> i \<and> i < int (length ns) then Some (ns ! nat i) else None)"

text \<open>
  \<open>insertChild\<close> (lines 22 to 34) returns the view as the call leaves it and the error
  thrown, if any: the child is pushed before the offset is checked, so the view is
  changed also when the call throws.
\<close>

definition docViewInsertChild :: "PageViewNode \<Rightarrow> int \<Rightarrow> DocView \<Rightarrow> DocView \<times> error option" where
  "docViewInsertChild child offset v =
     (let v1 = v\<lparr> viewChildren := viewChildren v @ [child] \<rparr>;
          childDOMContainer = getDOMContainer child
      in if offset > int (length (childNodes v1)) then (v1, Some OutOfRange)
         else (let nodes1 =
                     (if offset = int (length (childNodes v1))
                      then appendChild childDOMContainer (childNodes v1)
                      else insertBefore childDOMContainer
                             (childNodeAt (childNodes v1) (offset + 1)) (childNodes v1))
               in (v1\<lparr> childNodes := appendChild childDOMContainer nodes1 \<rparr>, None)))"

definition docViewGetChildren :: "DocView \<Rightarrow> PageViewNode list" where
  "docViewGetChildren v = viewChildren v"


text \<open>The view used in the examples: two page views inserted one after the other.\<close>

definition exampleDocView :: DocView where
  "exampleDocView =
     fst (docViewInsertChild \<lparr> getDOMContainer = 2 \<rparr> 1
       (fst (docViewInsertChild \<lparr> getDOMContainer = 1 \<rparr> 0 \<lparr> viewChildren = [], childNodes = [] \<rparr>)))"

section \<open>Predicates used in the proofs\<close>

text \<open>
  A child converts well when, on the offsets inside its selectable span, its conversion
  succeeds with a result inside its model span and is strictly increasing.
\<close>

definition convGood :: "RenderNode \<Rightarrow> bool" where
  "convGood c \<longleftrightarrow>
     (\<forall>s. 0 \<le> s \<and> s < int (childSelectableSize c) \<longrightarrow>
        (\<exists>m. childConvert c s = Inr m \<and> 0 \<le> m \<and> m < int (childModelSize c))) \<and>
     (\<forall>s t m n. 0 \<le> s \<and> s < t \<and> t < int (childSelectableSize c) \<and>
        childConvert c s = Inr m \<and> childConvert c t = Inr n \<longrightarrow> m < n)"

text \<open>
  A page is within the height when it is empty, or its lines' heights sum to at most the
  content height, or it is a single line taller than the content height. The invariant of
  the pagination loop: \<open>cumulatedHeight\<close> is the height of the current page, every page
  but the first holds a line, and every page is within the height.
\<close>

definition pageWithinHeight :: "('l \<Rightarrow> int) \<Rightarrow> int \<Rightarrow> 'l list \<Rightarrow> bool" where
  "pageWithinHeight getHeight contentHeight p \<longleftrightarrow>
     p = [] \<or> linesHeight getHeight p \<le> contentHeight \<or>
     (\<exists>l. p = [l] \<and> contentHeight < getHeight l)"

definition pagesInvariant ::
  "('l \<Rightarrow> int) \<Rightarrow> int \<Rightarrow> 'l list list \<times> 'l list \<times> int \<Rightarrow> bool" where
  "pagesInvariant getHeight contentHeight st \<longleftrightarrow>
     (case st of (pushed, pageView, cumulatedHeight) \<Rightarrow>
        cumulatedHeight = linesHeight getHeight pageView \<and>
        (\<forall>p\<in>set (tl (pushed @ [pageView])). p \<noteq> []) \<and>
        (\<forall>p\<in>set (pushed @ [pageView]). pageWithinHeight getHeight contentHeight p))"

text \<open>
  In the word searches, the elements before (or after) the current one cover no position
  when the search stands at the first (or last) position of the document.
\<close>

definition emptyBefore :: "BoxView option \<Rightarrow> LineView option \<Rightarrow> PageView option \<Rightarrow> bool" where
  "emptyBefore w l g \<longleftrightarrow>
     (case w of None \<Rightarrow> True | Some x \<Rightarrow> boxSize x = 0) \<and>
     (case l of None \<Rightarrow> True | Some x \<Rightarrow> lineSize x = 0) \<and>
     (case g of None \<Rightarrow> True | Some x \<Rightarrow> pageSize x = 0)"

section \<open>Properties of the render tree\<close>


lemma fold_add_sum: "fold (\<lambda>c acc. acc + f c) xs (a::nat) = a + sum_list (map f xs)"
  by (induction xs arbitrary: a) auto

lemma convertLoop_range:
  assumes "\<forall>c\<in>set cs. convGood c"
    and "a \<le> s" and "s < a + int (sum_list (map childSelectableSize cs))"
  shows "\<exists>m. convertLoop cs a b s = Inr m \<and> b \<le> m \<and> m < b + int (sum_list (map childModelSize cs))"
  using assms
proof (induction cs arbitrary: a b)
  case Nil
  then show ?case by simp
next
  case (Cons c cs)
  show ?case
  proof (cases "a + int (childSelectableSize c) > s")
    case True
    from Cons.prems(1) have g: "convGood c" by simp
    from True Cons.prems(2) have "0 \<le> s - a" "s - a < int (childSelectableSize c)" by auto
    with g obtain m where m: "childConvert c (s - a) = Inr m" "0 \<le> m" "m < int (childModelSize c)"
      unfolding convGood_def by blast
    with True show ?thesis by simp
  next
    case False
    from Cons.prems(1) have gs: "\<forall>c\<in>set cs. convGood c" by simp
    from False Cons.prems(3)
    have "a + int (childSelectableSize c) \<le> s"
      "s < (a + int (childSelectableSize c)) + int (sum_list (map childSelectableSize cs))" by auto
    from Cons.IH[OF gs this, of "b + int (childModelSize c)"]
    obtain m where "convertLoop cs (a + int (childSelectableSize c)) (b + int (childModelSize c)) s = Inr m"
      "b + int (childModelSize c) \<le> m" "m < b + int (childModelSize c) + int (sum_list (map childModelSize cs))"
      by blast
    with False show ?thesis by simp
  qed
qed

lemma convertLoop_lower:
  "convertLoop cs a b s = Inr m \<Longrightarrow> \<forall>c\<in>set cs. convGood c \<Longrightarrow> a \<le> s \<Longrightarrow> b \<le> m"
proof (induction cs arbitrary: a b)
  case Nil
  then show ?case by simp
next
  case (Cons c cs)
  show ?case
  proof (cases "a + int (childSelectableSize c) > s")
    case True
    from Cons.prems(2) have g: "convGood c" by simp
    from True Cons.prems(3) have "0 \<le> s - a" "s - a < int (childSelectableSize c)" by auto
    with g obtain k where k: "childConvert c (s - a) = Inr k" "0 \<le> k" 
      unfolding convGood_def by blast
    with True Cons.prems(1) show ?thesis by simp
  next
    case False
    with Cons.prems have "convertLoop cs (a + int (childSelectableSize c)) (b + int (childModelSize c)) s = Inr m"
      by simp
    from Cons.IH[OF this] Cons.prems False have "b + int (childModelSize c) \<le> m" by simp
    then show ?thesis by simp
  qed
qed

lemma convertLoop_mono:
  assumes "\<forall>c\<in>set cs. convGood c"
    and "a \<le> s" and "s < t" and "t < a + int (sum_list (map childSelectableSize cs))"
    and "convertLoop cs a b s = Inr m" and "convertLoop cs a b t = Inr n"
  shows "m < n"
  using assms
proof (induction cs arbitrary: a b)
  case Nil
  then show ?case by simp
next
  case (Cons c cs)
  from Cons.prems(1) have g: "convGood c" and gs: "\<forall>c\<in>set cs. convGood c" by simp_all
  show ?case
  proof (cases "a + int (childSelectableSize c) > s")
    case sIn: True
    from sIn Cons.prems(2) have s0: "0 \<le> s - a" "s - a < int (childSelectableSize c)" by auto
    with g obtain k where k: "childConvert c (s - a) = Inr k" "0 \<le> k" "k < int (childModelSize c)"
      unfolding convGood_def by blast
    with sIn Cons.prems(5) have m: "m = b + k" by simp
    show ?thesis
    proof (cases "a + int (childSelectableSize c) > t")
      case True
      with Cons.prems(2,3) have t0: "s - a < t - a" "t - a < int (childSelectableSize c)" by auto
      with g s0 obtain l where l: "childConvert c (t - a) = Inr l"
        unfolding convGood_def by (metis less_imp_le order_trans)
      with True Cons.prems(6) have n: "n = b + l" by simp
      from g s0 t0 k(1) l have "k < l" unfolding convGood_def by blast
      with m n show ?thesis by simp
    next
      case False
      with Cons.prems(6) have "convertLoop cs (a + int (childSelectableSize c)) (b + int (childModelSize c)) t = Inr n"
        by simp
      from convertLoop_lower[OF this gs] False have "b + int (childModelSize c) \<le> n" by simp
      with m k show ?thesis by simp
    qed
  next
    case False
    with Cons.prems(3) have tF: "\<not> a + int (childSelectableSize c) > t" by simp
    from False Cons.prems(5) have 1: "convertLoop cs (a + int (childSelectableSize c)) (b + int (childModelSize c)) s = Inr m" by simp
    from tF Cons.prems(6) have 2: "convertLoop cs (a + int (childSelectableSize c)) (b + int (childModelSize c)) t = Inr n" by simp
    from False have 3: "a + int (childSelectableSize c) \<le> s" by simp
    from Cons.prems(4) have 4: "t < a + int (childSelectableSize c) + int (sum_list (map childSelectableSize cs))" by simp
    from Cons.IH[OF gs 3 Cons.prems(3) 4 1 2] show ?thesis .
  qed
qed

lemma convGood_all: "convGood c"
proof (induction c)
  case (AtomicRenderNode i n)
  show ?case by (simp add: convGood_def)
next
  case (BranchRenderNode i cs)
  then have gs: "\<forall>c\<in>set cs. convGood c" by simp
  show ?case
    unfolding convGood_def
  proof (intro conjI allI impI)
    fix s assume "0 \<le> s \<and> s < int (childSelectableSize (BranchRenderNode i cs))"
    then have "0 \<le> s" "s < 0 + int (sum_list (map childSelectableSize cs))" by simp_all
    from convertLoop_range[OF gs this, of 1]
    show "\<exists>m. childConvert (BranchRenderNode i cs) s = Inr m \<and> 0 \<le> m \<and> m < int (childModelSize (BranchRenderNode i cs))"
      by auto
  next
    fix s t m n
    assume h: "0 \<le> s \<and> s < t \<and> t < int (childSelectableSize (BranchRenderNode i cs)) \<and>
       childConvert (BranchRenderNode i cs) s = Inr m \<and> childConvert (BranchRenderNode i cs) t = Inr n"
    then have "0 \<le> s" "s < t" "t < 0 + int (sum_list (map childSelectableSize cs))"
      "convertLoop cs 0 1 s = Inr m" "convertLoop cs 0 1 t = Inr n" by simp_all
    from convertLoop_mono[OF gs this] show "m < n" .
  qed
qed



lemma exampleDoc_eq: "exampleDoc = \<lparr> nodeId = ''doc'', width = 0, height = 0, padding = 0,
   children = [BranchRenderNode ''p1'' [BranchRenderNode ''t1'' [AtomicRenderNode ''a1'' 3]],
               BranchRenderNode ''p2'' [BranchRenderNode ''t2'' [AtomicRenderNode ''a2'' 2]]],
   selectableSize = None, modelSize = None \<rparr>"
  by (simp add: exampleDoc_def applyOps_def newDocRenderNode_def insertChild_def clearCache_def
      getSelectableSize_def spliceInsert_def)

lemma getSelectableSize_value:
  "cacheValid d \<Longrightarrow> fst (getSelectableSize d) = sum_list (map childSelectableSize (children d))"
  by (auto simp: cacheValid_def getSelectableSize_def fold_add_sum Let_def split: option.splits)

lemma getModelSize_value:
  "cacheValid d \<Longrightarrow> fst (getModelSize d) = 2 + sum_list (map childModelSize (children d))"
  by (auto simp: cacheValid_def getModelSize_def fold_add_sum Let_def split: option.splits)

lemma cacheValid_clearCache: "cacheValid (clearCache d)"
  by (simp add: cacheValid_def clearCache_def)

lemma applyOp_cacheValid: "cacheValid d \<Longrightarrow> cacheValid (applyOp op d)"
proof (cases op)
  case (InsertChild c k)
  then show ?thesis by (simp add: insertChild_def cacheValid_clearCache)
next
  case (DeleteChild c)
  assume "cacheValid d"
  with DeleteChild show ?thesis
    by (simp add: deleteChild_def cacheValid_clearCache)
next
  case (OnModelUpdated e)
  then show ?thesis by (simp add: onModelUpdated_def cacheValid_clearCache)
next
  case GetSelectableSize
  assume "cacheValid d"
  with GetSelectableSize show ?thesis
    by (auto simp: cacheValid_def getSelectableSize_def fold_add_sum Let_def split: option.splits)
next
  case GetModelSize
  assume "cacheValid d"
  with GetModelSize show ?thesis
    by (auto simp: cacheValid_def getModelSize_def fold_add_sum Let_def split: option.splits)
qed

lemma applyOps_cacheValid: "cacheValid d \<Longrightarrow> cacheValid (applyOps ops d)"
  unfolding applyOps_def by (induction ops arbitrary: d) (simp_all add: applyOp_cacheValid)

lemma cacheValid_new: "cacheValid (newDocRenderNode i)"
  by (simp add: cacheValid_def newDocRenderNode_def)

text \<open>
  Claim C1. For a document node whose caches are valid and a selectable offset \<open>s\<close> with
  \<open>0 \<le> s < getSelectableSize()\<close>, \<open>convertSelectableOffsetToModelOffset(s)\<close> returns
  (it does not throw), its result \<open>m\<close> satisfies \<open>1 \<le> m < getModelSize() - 1\<close>, and every
  larger offset \<open>t\<close> of the range converts to a result strictly greater than \<open>m\<close>.
\<close>

theorem C1_convert_total_increasing_bounded:
  assumes "cacheValid d" and "0 \<le> s" and "s < int (fst (getSelectableSize d))"
  shows "\<exists>m. convertSelectableOffsetToModelOffset d s = Inr m \<and>
             1 \<le> m \<and> m < int (fst (getModelSize d)) - 1 \<and>
             (\<forall>t. s < t \<and> t < int (fst (getSelectableSize d)) \<longrightarrow>
                  (\<exists>n. convertSelectableOffsetToModelOffset d t = Inr n \<and> m < n))"
proof -
  let ?cs = "children d"
  have gs: "\<forall>c\<in>set ?cs. convGood c" by (simp add: convGood_all)
  from assms have s: "s < 0 + int (sum_list (map childSelectableSize ?cs))"
    by (simp add: getSelectableSize_value)
  from convertLoop_range[OF gs assms(2) s, of 1]
  obtain m where m: "convertLoop ?cs 0 1 s = Inr m" "1 \<le> m"
    "m < 1 + int (sum_list (map childModelSize ?cs))" by blast
  have "\<exists>n. convertLoop ?cs 0 1 t = Inr n \<and> m < n"
    if t: "s < t \<and> t < int (fst (getSelectableSize d))" for t
  proof -
    from t assms have t1: "0 \<le> t" and t2: "t < 0 + int (sum_list (map childSelectableSize ?cs))"
      by (simp_all add: getSelectableSize_value)
    from convertLoop_range[OF gs t1 t2, of 1]
    obtain n where n: "convertLoop ?cs 0 1 t = Inr n" by blast
    from t have "s < t" by simp
    from convertLoop_mono[OF gs assms(2) this t2 m(1) n] n show ?thesis by blast
  qed
  with m assms(1) show ?thesis
    by (simp add: convertSelectableOffsetToModelOffset_def getModelSize_value)
qed

text \<open>
  The example node has selectable size 5 and model size 15; offset 3 converts to 10 and
  offset 4 to 11.
\<close>

theorem C1_witness:
  "cacheValid exampleDoc \<and> (0::int) \<le> 3 \<and> 3 < int (fst (getSelectableSize exampleDoc)) \<and>
   convertSelectableOffsetToModelOffset exampleDoc 3 = Inr 10 \<and>
   convertSelectableOffsetToModelOffset exampleDoc 4 = Inr 11 \<and>
   fst (getModelSize exampleDoc) = 15 \<and>
   (\<exists>m. convertSelectableOffsetToModelOffset exampleDoc 3 = Inr m \<and>
             1 \<le> m \<and> m < int (fst (getModelSize exampleDoc)) - 1 \<and>
             (\<forall>t. 3 < t \<and> t < int (fst (getSelectableSize exampleDoc)) \<longrightarrow>
                  (\<exists>n. convertSelectableOffsetToModelOffset exampleDoc t = Inr n \<and> m < n)))"
proof -
  have h1: "cacheValid exampleDoc" by (simp add: exampleDoc_eq cacheValid_def)
  have h2: "(0::int) \<le> 3" by simp
  have h3: "3 < int (fst (getSelectableSize exampleDoc))"
    by (simp add: exampleDoc_eq getSelectableSize_def)
  have e1: "convertSelectableOffsetToModelOffset exampleDoc 3 = Inr 10"
    by (simp add: exampleDoc_eq convertSelectableOffsetToModelOffset_def)
  have e2: "convertSelectableOffsetToModelOffset exampleDoc 4 = Inr 11"
    by (simp add: exampleDoc_eq convertSelectableOffsetToModelOffset_def)
  have e3: "fst (getModelSize exampleDoc) = 15"
    by (simp add: exampleDoc_eq getModelSize_def)
  from C1_convert_total_increasing_bounded[OF h1 h2 h3] h1 h2 h3 e1 e2 e3 show ?thesis
    by blast
qed

text \<open>
  Claim C9. After every sequence of calls of \<open>insertChild\<close>, \<open>deleteChild\<close>,
  \<open>onModelUpdated\<close> and of the two getters on a newly constructed document node,
  \<open>getSelectableSize()\<close> is the sum of the children's selectable sizes and
  \<open>getModelSize()\<close> is 2 plus the sum of the children's model sizes. Each of the three
  mutations leaves both caches empty; \<open>deleteChild\<close> either throws, for a child that is
  not among the children, or removes the child and leaves both caches empty.
\<close>

theorem C9_sizes_after_every_operation:
  "fst (getSelectableSize (applyOps ops (newDocRenderNode i))) =
     sum_list (map childSelectableSize (children (applyOps ops (newDocRenderNode i)))) \<and>
   fst (getModelSize (applyOps ops (newDocRenderNode i))) =
     2 + sum_list (map childModelSize (children (applyOps ops (newDocRenderNode i)))) \<and>
   selectableSize (insertChild child offset d) = None \<and>
   modelSize (insertChild child offset d) = None \<and>
   selectableSize (onModelUpdated element d) = None \<and>
   modelSize (onModelUpdated element d) = None \<and>
   (case deleteChild child d of
      Inl e \<Rightarrow> child \<notin> set (children d)
    | Inr d' \<Rightarrow> selectableSize d' = None \<and> modelSize d' = None \<and>
               children d' = remove1 child (children d))"
proof -
  have v: "cacheValid (applyOps ops (newDocRenderNode i))"
    by (rule applyOps_cacheValid) (rule cacheValid_new)
  have a: "selectableSize (insertChild child offset d) = None \<and>
           modelSize (insertChild child offset d) = None"
    by (simp add: insertChild_def clearCache_def split: option.splits)
  have b: "selectableSize (onModelUpdated element d) = None \<and>
           modelSize (onModelUpdated element d) = None"
    by (simp add: onModelUpdated_def clearCache_def)
  have c: "(case deleteChild child d of
      Inl e \<Rightarrow> child \<notin> set (children d)
    | Inr d' \<Rightarrow> selectableSize d' = None \<and> modelSize d' = None \<and>
               children d' = remove1 child (children d))"
    by (simp add: deleteChild_def clearCache_def)
  from getSelectableSize_value[OF v] getModelSize_value[OF v] a b c show ?thesis by simp
qed



section \<open>Out-of-range offsets\<close>








section \<open>Properties of line breaking\<close>

lemma fold_placeBoxView_width:
  "fold (placeBoxView w) bs (p, l, lineWidth l) = (p', l', c') \<Longrightarrow> c' = lineWidth l'"
proof (induction bs arbitrary: p l)
  case Nil
  then show ?case by auto
next
  case (Cons b bs)
  show ?case
  proof (cases "lineWidth l + boxWidth b > w")
    case True
    with Cons.prems have "fold (placeBoxView w) bs (p @ [l], [b], lineWidth [b]) = (p', l', c')"
      by (simp add: lineWidth_def)
    from Cons.IH[OF this] show ?thesis .
  next
    case False
    with Cons.prems have "fold (placeBoxView w) bs (p, l @ [b], lineWidth (l @ [b])) = (p', l', c')"
      by (simp add: lineWidth_def)
    from Cons.IH[OF this] show ?thesis .
  qed
qed

lemma buildBlockLineViews_snoc:
  "buildBlockLineViews w (bs @ [b]) ls =
     (if lineWidth (last (buildBlockLineViews w bs ls)) + boxWidth b > w
      then buildBlockLineViews w bs ls @ [[b]]
      else butlast (buildBlockLineViews w bs ls) @ [last (buildBlockLineViews w bs ls) @ [b]])"
proof -
  obtain p l c where st: "fold (placeBoxView w) bs (ls, [], 0) = (p, l, c)"
    by (metis prod_cases3)
  have "fold (placeBoxView w) bs (ls, [], lineWidth []) = (p, l, c)"
    using st by (simp add: lineWidth_def)
  from fold_placeBoxView_width[OF this] have c: "c = lineWidth l" .
  from st c show ?thesis by (simp add: buildBlockLineViews_def)
qed

lemma buildBlockLineViews_nonempty: "buildBlockLineViews w bs ls \<noteq> []"
  by (simp add: buildBlockLineViews_def split: prod.splits)

lemma buildLineViews_snoc:
  "buildLineViews config (blocks @ [bs]) =
     buildBlockLineViews (pageContentWidth config) bs (buildLineViews config blocks)"
  by (simp add: buildLineViews_def)

text \<open>
  Claim C4. Adding one more box view to the last block: the line views are those built
  without it, with a new line view holding the box when the width of the last line view
  plus the width of the box is strictly greater than the page width minus the left and
  right paddings, and with the box appended to the last line view otherwise. So a box
  that exactly fills the remaining width stays on the current line, and the number of
  line views grows exactly when the sum is strictly greater than the page width minus
  the left and right paddings.
\<close>

theorem C4_line_break_only_when_strictly_wider:
  "buildLineViews config (blocks @ [boxViews @ [boxView]]) =
     (if lineWidth (last (buildLineViews config (blocks @ [boxViews]))) + boxWidth boxView
           > pageWidth config - pagePaddingLeft config - pagePaddingRight config
      then buildLineViews config (blocks @ [boxViews]) @ [[boxView]]
      else butlast (buildLineViews config (blocks @ [boxViews])) @
             [last (buildLineViews config (blocks @ [boxViews])) @ [boxView]]) \<and>
   (lineWidth (last (buildLineViews config (blocks @ [boxViews]))) + boxWidth boxView
        = pageWidth config - pagePaddingLeft config - pagePaddingRight config \<longrightarrow>
      buildLineViews config (blocks @ [boxViews @ [boxView]]) =
        butlast (buildLineViews config (blocks @ [boxViews])) @
          [last (buildLineViews config (blocks @ [boxViews])) @ [boxView]]) \<and>
   (length (buildLineViews config (blocks @ [boxViews @ [boxView]])) =
      length (buildLineViews config (blocks @ [boxViews])) + 1 \<longleftrightarrow>
    lineWidth (last (buildLineViews config (blocks @ [boxViews]))) + boxWidth boxView
        > pageWidth config - pagePaddingLeft config - pagePaddingRight config)"
  using buildBlockLineViews_nonempty
         [of "pageContentWidth config" boxViews "buildLineViews config blocks"]
  by (auto simp add: buildLineViews_snoc buildBlockLineViews_snoc pageContentWidth_def)

lemma example_lines:
  "buildLineViews exampleConfig [[helloBox, worldBox], [fooBox]] =
     [[helloBox], [worldBox], [fooBox]]"
  "buildLineViews exampleConfig [[helloBox], [twoWideBox]] = [[helloBox], [twoWideBox]]"
  "buildLineViews exampleConfig [[helloBox], [twoWideBox, fourWideBox]] =
     [[helloBox], [twoWideBox, fourWideBox]]"
  "buildLineViews exampleConfig [[helloBox], [twoWideBox, fourWideBox, twoWideBox]] =
     [[helloBox], [twoWideBox, fourWideBox], [twoWideBox]]"
  by (simp_all add: buildLineViews_def buildBlockLineViews_def pageContentWidth_def
      exampleConfig_def helloBox_def worldBox_def fooBox_def twoWideBox_def fourWideBox_def)

text \<open>
  The page is 10 wide with paddings of 2 on each side, a content width of 6. "Hello "
  fills the first line exactly and stays on it; "world" starts the second line and the
  next block the third. After a first block, a box of width 4 fills the line begun by a
  box of width 2 exactly and stays on it, and one more box of width 2 starts a new line,
  although 8 is less than the page width.
\<close>

theorem C4_witness:
  "lineWidth (last (buildLineViews exampleConfig ([] @ [[]]))) + boxWidth helloBox
     = pageWidth exampleConfig - pagePaddingLeft exampleConfig - pagePaddingRight exampleConfig \<and>
   buildLineViews exampleConfig ([] @ [[] @ [helloBox]]) =
     butlast (buildLineViews exampleConfig ([] @ [[]])) @
       [last (buildLineViews exampleConfig ([] @ [[]])) @ [helloBox]] \<and>
   lineWidth (last (buildLineViews exampleConfig ([[helloBox]] @ [[twoWideBox]])))
       + boxWidth fourWideBox
     = pageWidth exampleConfig - pagePaddingLeft exampleConfig - pagePaddingRight exampleConfig \<and>
   buildLineViews exampleConfig ([[helloBox]] @ [[twoWideBox] @ [fourWideBox]]) =
     butlast (buildLineViews exampleConfig ([[helloBox]] @ [[twoWideBox]])) @
       [last (buildLineViews exampleConfig ([[helloBox]] @ [[twoWideBox]])) @ [fourWideBox]] \<and>
   lineWidth (last (buildLineViews exampleConfig ([[helloBox]] @ [[twoWideBox, fourWideBox]])))
       + boxWidth twoWideBox
     > pageWidth exampleConfig - pagePaddingLeft exampleConfig - pagePaddingRight exampleConfig \<and>
   length (buildLineViews exampleConfig ([[helloBox]] @ [[twoWideBox, fourWideBox] @ [twoWideBox]])) =
     length (buildLineViews exampleConfig ([[helloBox]] @ [[twoWideBox, fourWideBox]])) + 1 \<and>
   buildLineViews exampleConfig [[]] = [[]] \<and>
   buildLineViews exampleConfig [[helloBox]] = [[helloBox]] \<and>
   buildLineViews exampleConfig [[helloBox, worldBox], [fooBox]] =
     [[helloBox], [worldBox], [fooBox]] \<and>
   buildLineViews exampleConfig [[helloBox], [twoWideBox, fourWideBox]] =
     [[helloBox], [twoWideBox, fourWideBox]] \<and>
   buildLineViews exampleConfig [[helloBox], [twoWideBox, fourWideBox, twoWideBox]] =
     [[helloBox], [twoWideBox, fourWideBox], [twoWideBox]]"
proof -
  have h1: "lineWidth (last (buildLineViews exampleConfig ([] @ [[]]))) + boxWidth helloBox
     = pageWidth exampleConfig - pagePaddingLeft exampleConfig - pagePaddingRight exampleConfig"
    by (simp add: buildLineViews_def buildBlockLineViews_def pageContentWidth_def
        exampleConfig_def helloBox_def lineWidth_def)
  from C4_line_break_only_when_strictly_wider[of exampleConfig "[]" "[]" helloBox] h1
  have s1: "buildLineViews exampleConfig ([] @ [[] @ [helloBox]]) =
     butlast (buildLineViews exampleConfig ([] @ [[]])) @
       [last (buildLineViews exampleConfig ([] @ [[]])) @ [helloBox]]"
    by blast
  have l2: "last (buildLineViews exampleConfig ([[helloBox]] @ [[twoWideBox]])) = [twoWideBox]"
    using example_lines(2) by simp
  have l3: "last (buildLineViews exampleConfig ([[helloBox]] @ [[twoWideBox, fourWideBox]])) =
      [twoWideBox, fourWideBox]"
    using example_lines(3) by simp
  have h2: "lineWidth (last (buildLineViews exampleConfig ([[helloBox]] @ [[twoWideBox]])))
       + boxWidth fourWideBox
     = pageWidth exampleConfig - pagePaddingLeft exampleConfig - pagePaddingRight exampleConfig"
    unfolding l2 by (simp add: lineWidth_def twoWideBox_def fourWideBox_def exampleConfig_def)
  from C4_line_break_only_when_strictly_wider
         [of exampleConfig "[[helloBox]]" "[twoWideBox]" fourWideBox] h2
  have s2: "buildLineViews exampleConfig ([[helloBox]] @ [[twoWideBox] @ [fourWideBox]]) =
     butlast (buildLineViews exampleConfig ([[helloBox]] @ [[twoWideBox]])) @
       [last (buildLineViews exampleConfig ([[helloBox]] @ [[twoWideBox]])) @ [fourWideBox]]"
    by blast
  have h3: "lineWidth (last (buildLineViews exampleConfig ([[helloBox]] @ [[twoWideBox, fourWideBox]])))
       + boxWidth twoWideBox
     > pageWidth exampleConfig - pagePaddingLeft exampleConfig - pagePaddingRight exampleConfig"
    unfolding l3 by (simp add: lineWidth_def twoWideBox_def fourWideBox_def exampleConfig_def)
  from C4_line_break_only_when_strictly_wider
         [of exampleConfig "[[helloBox]]" "[twoWideBox, fourWideBox]" twoWideBox] h3
  have s3: "length (buildLineViews exampleConfig
                     ([[helloBox]] @ [[twoWideBox, fourWideBox] @ [twoWideBox]])) =
     length (buildLineViews exampleConfig ([[helloBox]] @ [[twoWideBox, fourWideBox]])) + 1"
    by blast
  have e: "buildLineViews exampleConfig [[]] = [[]]"
    "buildLineViews exampleConfig [[helloBox]] = [[helloBox]]"
    by (simp_all add: buildLineViews_def buildBlockLineViews_def pageContentWidth_def
        exampleConfig_def helloBox_def)
  from h1 s1 h2 s2 h3 s3 e example_lines(1,3,4) show ?thesis by blast
qed

section \<open>Properties of pagination\<close>

lemma placeLineView_invariant:
  assumes "pagesInvariant h H st"
  shows "pagesInvariant h H (placeLineView h H l st)"
proof -
  obtain pushed page cum where st: "st = (pushed, page, cum)" by (metis prod_cases3)
  from assms st have cum: "cum = linesHeight h page"
    and ne: "\<forall>p\<in>set (tl (pushed @ [page])). p \<noteq> []"
    and ok: "\<forall>p\<in>set (pushed @ [page]). pageWithinHeight h H p"
    by (simp_all add: pagesInvariant_def)
  show ?thesis
  proof (cases "cum + h l > H")
    case True
    have 1: "pageWithinHeight h H [l]"
      by (auto simp: pageWithinHeight_def linesHeight_def)
    have 2: "tl ((pushed @ [page]) @ [[l]]) = tl (pushed @ [page]) @ [[l]]"
      by (cases pushed) simp_all
    from ne have 3: "\<forall>p\<in>set (tl ((pushed @ [page]) @ [[l]])). p \<noteq> []"
      unfolding 2 by auto
    from True st ok 1 3 show ?thesis
      by (simp add: pagesInvariant_def linesHeight_def)
  next
    case False
    with cum have 1: "pageWithinHeight h H (page @ [l])"
      by (simp add: pageWithinHeight_def linesHeight_def)
    have 3: "\<forall>p\<in>set (tl (pushed @ [page @ [l]])). p \<noteq> []"
    proof (cases pushed)
      case Nil
      then show ?thesis by simp
    next
      case (Cons a as)
      with ne show ?thesis by simp
    qed
    from False st ok 1 3 cum show ?thesis
      by (simp add: pagesInvariant_def linesHeight_def)
  qed
qed

lemma fold_placeLineView_invariant:
  "pagesInvariant h H st \<Longrightarrow> pagesInvariant h H (fold (placeLineView h H) ls st)"
  by (induction ls arbitrary: st) (simp_all add: placeLineView_invariant)

lemma fold_placeLineView_concat:
  "fold (placeLineView h H) ls (pushed, page, cum) = (pushed', page', cum') \<Longrightarrow>
   concat (pushed' @ [page']) = concat (pushed @ [page]) @ ls"
proof (induction ls arbitrary: pushed page cum)
  case Nil
  then show ?case by auto
next
  case (Cons l ls)
  show ?case
  proof (cases "cum + h l > H")
    case True
    with Cons.prems have "fold (placeLineView h H) ls (pushed @ [page], [l], 0 + h l) = (pushed', page', cum')"
      by simp
    from Cons.IH[OF this] show ?thesis by simp
  next
    case False
    with Cons.prems have "fold (placeLineView h H) ls (pushed, page @ [l], cum + h l) = (pushed', page', cum')"
      by simp
    from Cons.IH[OF this] show ?thesis by simp
  qed
qed

lemma buildPageViews_concat: "concat (buildPageViews h config ls) = ls"
proof -
  obtain p g c where st: "fold (placeLineView h (pageContentHeight config)) ls ([], [], 0) = (p, g, c)"
    by (metis prod_cases3)
  from fold_placeLineView_concat[OF st] st show ?thesis
    by (simp add: buildPageViews_def)
qed

lemma buildPageViews_invariant:
  "(\<forall>p\<in>set (tl (buildPageViews h config ls)). p \<noteq> []) \<and>
   (\<forall>p\<in>set (buildPageViews h config ls). pageWithinHeight h (pageContentHeight config) p)"
proof -
  obtain p g c where st: "fold (placeLineView h (pageContentHeight config)) ls ([], [], 0) = (p, g, c)"
    by (metis prod_cases3)
  have "pagesInvariant h (pageContentHeight config) ([], [], 0)"
    by (simp add: pagesInvariant_def linesHeight_def pageWithinHeight_def)
  from fold_placeLineView_invariant[OF this, of ls] st show ?thesis
    by (simp add: pagesInvariant_def buildPageViews_def)
qed

lemma member_le_sum_list:
  fixes f :: "'a \<Rightarrow> int"
  assumes "\<forall>x\<in>set xs. 0 \<le> f x" and "l \<in> set xs"
  shows "f l \<le> sum_list (map f xs)"
  using assms
proof (induction xs)
  case Nil
  then show ?case by simp
next
  case (Cons x xs)
  from Cons.prems(1) have nn: "0 \<le> sum_list (map f xs)"
    by (intro sum_list_nonneg) auto
  show ?case
  proof (cases "l = x")
    case True
    with nn show ?thesis by simp
  next
    case False
    with Cons have "f l \<le> sum_list (map f xs)" by simp
    moreover from Cons.prems(1) have "0 \<le> f x" by simp
    ultimately show ?thesis by simp
  qed
qed

lemma fold_placeLineView_nonempty:
  "fold (placeLineView h H) ls (pushed, page, cum) = (pushed', page', cum') \<Longrightarrow>
   page \<noteq> [] \<Longrightarrow> \<forall>p\<in>set pushed. p \<noteq> [] \<Longrightarrow>
   page' \<noteq> [] \<and> (\<forall>p\<in>set pushed'. p \<noteq> [])"
proof (induction ls arbitrary: pushed page cum)
  case Nil
  then show ?case by auto
next
  case (Cons l ls)
  show ?case
  proof (cases "cum + h l > H")
    case True
    with Cons.prems(1)
    have f: "fold (placeLineView h H) ls (pushed @ [page], [l], 0 + h l) = (pushed', page', cum')"
      by simp
    from Cons.prems(2,3) have "\<forall>p\<in>set (pushed @ [page]). p \<noteq> []" by simp
    from Cons.IH[OF f _ this] show ?thesis by simp
  next
    case False
    with Cons.prems(1)
    have f: "fold (placeLineView h H) ls (pushed, page @ [l], cum + h l) = (pushed', page', cum')"
      by simp
    from Cons.IH[OF f _ Cons.prems(3)] show ?thesis by simp
  qed
qed

lemma buildPageViews_no_lines: "buildPageViews h config [] = [[]]"
  by (simp add: buildPageViews_def)

lemma buildPageViews_first_line_fits:
  assumes "ls \<noteq> []" and "h (hd ls) \<le> pageContentHeight config"
  shows "\<forall>p\<in>set (buildPageViews h config ls). p \<noteq> []"
proof -
  from assms(1) obtain l rest where ls: "ls = l # rest" by (cases ls) auto
  obtain p g c where
    st: "fold (placeLineView h (pageContentHeight config)) rest ([], [l], 0 + h l) = (p, g, c)"
    by (metis prod_cases3)
  from fold_placeLineView_nonempty[OF st] have "g \<noteq> [] \<and> (\<forall>x\<in>set p. x \<noteq> [])" by simp
  moreover from assms(2) ls st have "buildPageViews h config ls = p @ [g]"
    by (simp add: buildPageViews_def)
  ultimately show ?thesis by auto
qed

text \<open>
  Claim C2, amended. The page views hold the line views in order. With no line view the
  one page view built is empty. When the height of the first line view is at most the
  page height minus the top and bottom paddings, every page view holds at least one line
  view. In every case every page view after the first holds at least one line view, and
  every page view is empty, or its line views' heights sum to at most the page height
  minus the top and bottom paddings, or it is a single line view taller than that; and
  when no height is negative, a line view taller than that is alone on its page view.
\<close>

theorem C2_every_page_holds_a_line_when_the_first_line_fits:
  "concat (buildPageViews getHeight config lineViews) = lineViews \<and>
   (lineViews = [] \<longrightarrow> buildPageViews getHeight config lineViews = [[]]) \<and>
   (lineViews \<noteq> [] \<and>
    getHeight (hd lineViews) \<le> pageHeight config - pagePaddingTop config - pagePaddingBottom config
      \<longrightarrow> (\<forall>p\<in>set (buildPageViews getHeight config lineViews). p \<noteq> [])) \<and>
   (\<forall>p\<in>set (tl (buildPageViews getHeight config lineViews)). p \<noteq> []) \<and>
   (\<forall>p\<in>set (buildPageViews getHeight config lineViews).
      p = [] \<or>
      linesHeight getHeight p \<le> pageHeight config - pagePaddingTop config - pagePaddingBottom config \<or>
      (\<exists>l. p = [l] \<and>
           pageHeight config - pagePaddingTop config - pagePaddingBottom config < getHeight l)) \<and>
   ((\<forall>l\<in>set lineViews. 0 \<le> getHeight l) \<longrightarrow>
      (\<forall>p\<in>set (buildPageViews getHeight config lineViews). \<forall>l\<in>set p.
         pageHeight config - pagePaddingTop config - pagePaddingBottom config < getHeight l
           \<longrightarrow> p = [l]))"
proof -
  let ?pages = "buildPageViews getHeight config lineViews"
  let ?H = "pageContentHeight config"
  have H: "pageHeight config - pagePaddingTop config - pagePaddingBottom config = ?H"
    by (simp add: pageContentHeight_def)
  have c: "concat ?pages = lineViews" by (rule buildPageViews_concat)
  have e: "lineViews = [] \<longrightarrow> ?pages = [[]]" by (simp add: buildPageViews_no_lines)
  have f: "lineViews \<noteq> [] \<and> getHeight (hd lineViews) \<le> ?H \<longrightarrow> (\<forall>p\<in>set ?pages. p \<noteq> [])"
    using buildPageViews_first_line_fits[of lineViews getHeight config] by blast
  from buildPageViews_invariant[of getHeight config lineViews]
  have a: "\<forall>p\<in>set (tl ?pages). p \<noteq> []"
    and b: "\<forall>p\<in>set ?pages. pageWithinHeight getHeight ?H p" by simp_all
  have d: "p = [l]"
    if nn: "\<forall>l\<in>set lineViews. 0 \<le> getHeight l" and p: "p \<in> set ?pages" and l: "l \<in> set p"
      and tall: "?H < getHeight l" for p l
  proof -
    from p c have "set p \<subseteq> set lineViews" by (metis set_concat UN_upper)
    with nn have pn: "\<forall>x\<in>set p. 0 \<le> getHeight x" by blast
    from member_le_sum_list[OF pn l] tall have big: "?H < linesHeight getHeight p"
      by (simp add: linesHeight_def)
    from b p have "pageWithinHeight getHeight ?H p" by simp
    with big l obtain l' where "p = [l']" by (auto simp: pageWithinHeight_def)
    with l show ?thesis by simp
  qed
  from a b c d e f show ?thesis unfolding pageWithinHeight_def H by blast
qed

lemma example_pages:
  "buildPageViews id exampleConfig [4, 6, 3, 20, 2] = [[4, 6], [3], [20], [2]]"
  by (simp add: buildPageViews_def pageContentHeight_def exampleConfig_def)

text \<open>
  Against claim C2 as stated, on a page 14 high with paddings of 1 and 3, a content
  height of 10: with no line at all the one page built holds no line, and with lines of
  heights 20 and 4 the first of the three pages built holds no line.
\<close>

theorem C2_counterexample:
  "buildPageViews id exampleConfig ([] :: int list) = [[]] \<and>
   buildPageViews id exampleConfig [20, 4] = [[], [20], [4]]"
  by (simp add: buildPageViews_def pageContentHeight_def exampleConfig_def)

text \<open>
  Lines of heights 4, 6, 3, 20 and 2 on a page 14 high with paddings of 1 and 3: the
  first two fill the first page exactly, and every page holds a line.
\<close>

theorem C2_witness:
  "[4, 6, 3, 20, 2 :: int] \<noteq> [] \<and>
   id (hd [4, 6, 3, 20, 2 :: int])
     \<le> pageHeight exampleConfig - pagePaddingTop exampleConfig - pagePaddingBottom exampleConfig \<and>
   list_all (\<lambda>l. 0 \<le> id l) [4, 6, 3, 20, 2 :: int] \<and>
   buildPageViews id exampleConfig [4, 6, 3, 20, 2] = [[4, 6], [3], [20], [2]] \<and>
   linesHeight id [4, 6]
     = pageHeight exampleConfig - pagePaddingTop exampleConfig - pagePaddingBottom exampleConfig \<and>
   pageHeight exampleConfig - pagePaddingTop exampleConfig - pagePaddingBottom exampleConfig
     < id 20 \<and>
   concat (buildPageViews id exampleConfig [4, 6, 3, 20, 2]) = [4, 6, 3, 20, 2] \<and>
   list_all (\<lambda>p. p \<noteq> []) (buildPageViews id exampleConfig [4, 6, 3, 20, 2]) \<and>
   list_all (\<lambda>p. p \<noteq> []) (tl (buildPageViews id exampleConfig [4, 6, 3, 20, 2])) \<and>
   list_all (\<lambda>p. p = [] \<or>
                  linesHeight id p \<le> pageHeight exampleConfig - pagePaddingTop exampleConfig
                                        - pagePaddingBottom exampleConfig \<or>
                  (\<exists>l. p = [l] \<and>
                       pageHeight exampleConfig - pagePaddingTop exampleConfig
                         - pagePaddingBottom exampleConfig < id l))
     (buildPageViews id exampleConfig [4, 6, 3, 20, 2]) \<and>
   list_all (\<lambda>p. list_all (\<lambda>l. pageHeight exampleConfig - pagePaddingTop exampleConfig
                                    - pagePaddingBottom exampleConfig < id l \<longrightarrow> p = [l]) p)
     (buildPageViews id exampleConfig [4, 6, 3, 20, 2]) \<and>
   buildPageViews id exampleConfig ([] :: int list) = [[]]"
proof -
  note T = C2_every_page_holds_a_line_when_the_first_line_fits
             [of id exampleConfig "[4, 6, 3, 20, 2]"]
  note E = C2_every_page_holds_a_line_when_the_first_line_fits
             [of id exampleConfig "[] :: int list"]
  have ne: "[4, 6, 3, 20, 2 :: int] \<noteq> []" by simp
  have fits: "id (hd [4, 6, 3, 20, 2 :: int])
     \<le> pageHeight exampleConfig - pagePaddingTop exampleConfig - pagePaddingBottom exampleConfig"
    by (simp add: exampleConfig_def)
  have nn: "\<forall>l\<in>set [4, 6, 3, 20, 2 :: int]. 0 \<le> id l" by simp
  from E have n: "buildPageViews id exampleConfig ([] :: int list) = [[]]" by blast
  from T have c: "concat (buildPageViews id exampleConfig [4, 6, 3, 20, 2]) = [4, 6, 3, 20, 2]"
    by blast
  from T ne fits have f: "\<forall>p\<in>set (buildPageViews id exampleConfig [4, 6, 3, 20, 2]). p \<noteq> []"
    by blast
  from T have a: "\<forall>p\<in>set (tl (buildPageViews id exampleConfig [4, 6, 3, 20, 2])). p \<noteq> []"
    by blast
  from T have b: "\<forall>p\<in>set (buildPageViews id exampleConfig [4, 6, 3, 20, 2]).
      p = [] \<or>
      linesHeight id p \<le> pageHeight exampleConfig - pagePaddingTop exampleConfig
                            - pagePaddingBottom exampleConfig \<or>
      (\<exists>l. p = [l] \<and>
           pageHeight exampleConfig - pagePaddingTop exampleConfig
             - pagePaddingBottom exampleConfig < id l)"
    by blast
  from T nn have d: "\<forall>p\<in>set (buildPageViews id exampleConfig [4, 6, 3, 20, 2]). \<forall>l\<in>set p.
         pageHeight exampleConfig - pagePaddingTop exampleConfig
           - pagePaddingBottom exampleConfig < id l \<longrightarrow> p = [l]"
    by blast
  have v: "linesHeight id [4, 6]
     = pageHeight exampleConfig - pagePaddingTop exampleConfig - pagePaddingBottom exampleConfig"
    "pageHeight exampleConfig - pagePaddingTop exampleConfig - pagePaddingBottom exampleConfig
     < id 20"
    by (simp_all add: linesHeight_def exampleConfig_def)
  from nn have nn': "list_all (\<lambda>l. 0 \<le> id l) [4, 6, 3, 20, 2 :: int]"
    unfolding list_all_iff .
  from ne fits a b c d f n v nn' example_pages show ?thesis unfolding list_all_iff by blast
qed

section \<open>Properties of the position searches of the document view\<close>

lemma sum_list_zero_member:
  fixes f :: "'a \<Rightarrow> nat"
  shows "sum_list (map f xs) = 0 \<Longrightarrow> x \<in> set xs \<Longrightarrow> f x = 0"
  by (induction xs) auto

lemma sum_list_map_rev:
  fixes f :: "'a \<Rightarrow> nat"
  shows "sum_list (map f (rev xs)) = sum_list (map f xs)"
  by (induction xs) simp_all

lemma lineSize_zero_last: "lineSize l = 0 \<Longrightarrow> l \<noteq> [] \<Longrightarrow> boxSize (last l) = 0"
  using sum_list_zero_member[of boxSize l "last l"] by (simp add: lineSize_def del: sum_list_eq_0_iff)

lemma lineSize_zero_hd: "lineSize l = 0 \<Longrightarrow> l \<noteq> [] \<Longrightarrow> boxSize (hd l) = 0"
  using sum_list_zero_member[of boxSize l "hd l"] by (simp add: lineSize_def del: sum_list_eq_0_iff)

lemma pageSize_zero_last: "pageSize g = 0 \<Longrightarrow> g \<noteq> [] \<Longrightarrow> lineSize (last g) = 0"
  using sum_list_zero_member[of lineSize g "last g"] by (simp add: pageSize_def del: sum_list_eq_0_iff)

lemma pageSize_zero_hd: "pageSize g = 0 \<Longrightarrow> g \<noteq> [] \<Longrightarrow> lineSize (hd g) = 0"
  using sum_list_zero_member[of lineSize g "hd g"] by (simp add: pageSize_def del: sum_list_eq_0_iff)

lemma tryPreviousWord_empty: "emptyBefore w l g \<Longrightarrow> tryPreviousWord w l g c = c"
  by (cases w; cases l; cases g)
     (auto simp: emptyBefore_def lineSize_zero_last pageSize_zero_last)

lemma tryNextWord_empty: "emptyBefore w l g \<Longrightarrow> tryNextWord w l g c = c"
  by (cases w; cases l; cases g)
     (auto simp: emptyBefore_def lineSize_zero_hd pageSize_zero_hd)

lemma wordStartLoop_first:
  "0 < sum_list (map boxSize ws) \<Longrightarrow> emptyBefore w l g \<Longrightarrow> wordStartLoop w ws l g 0 0 = Return 0"
proof (induction ws arbitrary: w)
  case Nil
  then show ?case by simp
next
  case (Cons x ws)
  show ?case
  proof (cases "boxSize x = 0")
    case True
    with Cons.prems have "0 < sum_list (map boxSize ws)" "emptyBefore (Some x) l g"
      by (simp_all add: emptyBefore_def)
    from Cons.IH[OF this] True show ?thesis by simp
  next
    case False
    with Cons.prems(2) show ?thesis by (simp add: tryPreviousWord_empty)
  qed
qed

lemma lineStartLoop_first:
  "0 < sum_list (map lineSize ls) \<Longrightarrow> emptyBefore None l g \<Longrightarrow> lineStartLoop l ls g 0 0 = Return 0"
proof (induction ls arbitrary: l)
  case Nil
  then show ?case by simp
next
  case (Cons x ls)
  show ?case
  proof (cases "lineSize x = 0")
    case True
    with Cons.prems have "0 < sum_list (map lineSize ls)" "emptyBefore None (Some x) g"
      by (simp_all add: emptyBefore_def)
    from Cons.IH[OF this] True show ?thesis by simp
  next
    case False
    then have "0 < lineSize x" by simp
    then have "0 < sum_list (map boxSize x)" unfolding lineSize_def .
    from wordStartLoop_first[OF this Cons.prems(2)] False show ?thesis by simp
  qed
qed

lemma pageStartLoop_first:
  "0 < sum_list (map pageSize ps) \<Longrightarrow> emptyBefore None None g \<Longrightarrow> pageStartLoop g ps 0 0 = Inr 0"
proof (induction ps arbitrary: g)
  case Nil
  then show ?case by simp
next
  case (Cons x ps)
  show ?case
  proof (cases "pageSize x = 0")
    case True
    with Cons.prems have "0 < sum_list (map pageSize ps)" "emptyBefore None None (Some x)"
      by (simp_all add: emptyBefore_def)
    from Cons.IH[OF this] True show ?thesis by simp
  next
    case False
    then have "0 < pageSize x" by simp
    then have "0 < sum_list (map lineSize x)" unfolding pageSize_def .
    from lineStartLoop_first[OF this Cons.prems(2)] False show ?thesis by simp
  qed
qed

lemma wordEndLoop_last:
  "0 < sum_list (map boxSize ws) \<Longrightarrow> emptyBefore w l g \<Longrightarrow> wordEndLoop w ws l g c c = Return c"
proof (induction ws arbitrary: w)
  case Nil
  then show ?case by simp
next
  case (Cons x ws)
  show ?case
  proof (cases "boxSize x = 0")
    case True
    with Cons.prems have "0 < sum_list (map boxSize ws)" "emptyBefore (Some x) l g"
      by (simp_all add: emptyBefore_def)
    from Cons.IH[OF this] True show ?thesis by simp
  next
    case False
    with Cons.prems(2) show ?thesis by (simp add: tryNextWord_empty)
  qed
qed

lemma lineEndLoop_last:
  "0 < sum_list (map lineSize ls) \<Longrightarrow> emptyBefore None l g \<Longrightarrow> lineEndLoop l ls g c c = Return c"
proof (induction ls arbitrary: l)
  case Nil
  then show ?case by simp
next
  case (Cons x ls)
  show ?case
  proof (cases "lineSize x = 0")
    case True
    with Cons.prems have "0 < sum_list (map lineSize ls)" "emptyBefore None (Some x) g"
      by (simp_all add: emptyBefore_def)
    from Cons.IH[OF this] True show ?thesis by simp
  next
    case False
    then have "0 < lineSize x" by simp
    then have "0 < sum_list (map boxSize (rev x))" unfolding lineSize_def sum_list_map_rev .
    from wordEndLoop_last[OF this Cons.prems(2)] False show ?thesis by simp
  qed
qed

lemma pageEndLoop_last:
  "0 < sum_list (map pageSize ps) \<Longrightarrow> emptyBefore None None g \<Longrightarrow> pageEndLoop g ps c c = Inr c"
proof (induction ps arbitrary: g)
  case Nil
  then show ?case by simp
next
  case (Cons x ps)
  show ?case
  proof (cases "pageSize x = 0")
    case True
    with Cons.prems have "0 < sum_list (map pageSize ps)" "emptyBefore None None (Some x)"
      by (simp_all add: emptyBefore_def)
    from Cons.IH[OF this] True show ?thesis by simp
  next
    case False
    then have "0 < pageSize x" by simp
    then have "0 < sum_list (map lineSize (rev x))" unfolding pageSize_def sum_list_map_rev .
    from lineEndLoop_last[OF this Cons.prems(2)] False show ?thesis by simp
  qed
qed

lemma getWordStartPosition_first:
  "0 < pagesSize (pageViews dv) \<Longrightarrow> getWordStartPosition dv 0 = Inr 0"
  unfolding pagesSize_def getWordStartPosition_def
  by (rule pageStartLoop_first) (simp_all add: emptyBefore_def)

lemma getWordEndPosition_last:
  assumes "0 < pagesSize (pageViews dv)"
  shows "getWordEndPosition dv (int (documentSize dv) - 1) = Inr (int (documentSize dv) - 1)"
proof -
  from assms have "0 < sum_list (map pageSize (rev (pageViews dv)))"
    unfolding pagesSize_def sum_list_map_rev .
  then show ?thesis
    by (simp add: getWordEndPosition_def pageEndLoop_last emptyBefore_def)
qed


section \<open>Properties of the boundary searches of the cursor commands\<close>

lemma locate_decomp:
  assumes "locate sz prev xs p = Inr d" and "0 \<le> p"
  shows "\<exists>ys zs. xs = ys @ node d # zs \<and>
           p = int (sum_list (map sz ys)) + nodePosition d \<and>
           0 \<le> nodePosition d \<and> nodePosition d < int (sz (node d)) \<and>
           previousCrossParentSibling d = (if ys = [] then prev else Some (last ys)) \<and>
           nextCrossParentSibling d = (case zs of [] \<Rightarrow> None | z # zs' \<Rightarrow> Some z)"
  using assms
proof (induction xs arbitrary: prev p)
  case Nil
  then show ?case by simp
next
  case (Cons x xs)
  show ?case
  proof (cases "p < int (sz x)")
    case True
    with Cons.prems have d: "d = \<lparr> node = x, nodePosition = p, previousCrossParentSibling = prev,
        nextCrossParentSibling = (case xs of [] \<Rightarrow> None | y # ys \<Rightarrow> Some y) \<rparr>"
      by simp
    have "x # xs = [] @ node d # xs \<and>
           p = int (sum_list (map sz [])) + nodePosition d \<and>
           0 \<le> nodePosition d \<and> nodePosition d < int (sz (node d)) \<and>
           previousCrossParentSibling d = (if [] = ([]::'a list) then prev else Some (last [])) \<and>
           nextCrossParentSibling d = (case xs of [] \<Rightarrow> None | z # zs' \<Rightarrow> Some z)"
      using d True Cons.prems(2) by simp
    then show ?thesis by blast
  next
    case False
    with Cons.prems have l: "locate sz (Some x) xs (p - int (sz x)) = Inr d" by simp
    from False have "0 \<le> p - int (sz x)" by simp
    from Cons.IH[OF l this] obtain ys zs where
      yz: "xs = ys @ node d # zs"
        "p - int (sz x) = int (sum_list (map sz ys)) + nodePosition d"
        "0 \<le> nodePosition d" "nodePosition d < int (sz (node d))"
        "previousCrossParentSibling d = (if ys = [] then Some x else Some (last ys))"
        "nextCrossParentSibling d = (case zs of [] \<Rightarrow> None | z # zs' \<Rightarrow> Some z)"
      by blast
    have "x # xs = (x # ys) @ node d # zs \<and>
           p = int (sum_list (map sz (x # ys))) + nodePosition d \<and>
           0 \<le> nodePosition d \<and> nodePosition d < int (sz (node d)) \<and>
           previousCrossParentSibling d = (if x # ys = [] then prev else Some (last (x # ys))) \<and>
           nextCrossParentSibling d = (case zs of [] \<Rightarrow> None | z # zs' \<Rightarrow> Some z)"
      using yz by simp
    then show ?thesis by blast
  qed
qed

lemma locate_at:
  assumes "0 \<le> j" and "j < int (sz x)"
  shows "locate sz prev (ys @ x # zs) (int (sum_list (map sz ys)) + j) =
           Inr \<lparr> node = x, nodePosition = j,
                 previousCrossParentSibling = (if ys = [] then prev else Some (last ys)),
                 nextCrossParentSibling = (case zs of [] \<Rightarrow> None | z # zs' \<Rightarrow> Some z) \<rparr>"
  using assms
proof (induction ys arbitrary: prev)
  case Nil
  then show ?case by simp
next
  case (Cons y ys)
  let ?a = "int (sum_list (map sz ys)) + j"
  from Cons.prems(1) have a0: "0 \<le> ?a" by simp
  have e: "int (sum_list (map sz (y # ys))) + j = int (sz y) + ?a" by simp
  from a0 have "locate sz prev (y # (ys @ x # zs)) (int (sz y) + ?a) =
      locate sz (Some y) (ys @ x # zs) ?a"
    by simp
  with Cons.IH[OF Cons.prems, of "Some y"] show ?case
    unfolding e by simp
qed

lemma atWord_decomp:
  assumes "atWord layout p = Inr d"
  shows "\<exists>ys zs. allWords layout = ys @ node d # zs \<and>
           p = int (sum_list (map wordSize ys)) + nodePosition d \<and>
           0 \<le> nodePosition d \<and> nodePosition d < int (wordSize (node d)) \<and>
           previousCrossParentSibling d = (if ys = [] then None else Some (last ys)) \<and>
           nextCrossParentSibling d = (case zs of [] \<Rightarrow> None | z # zs' \<Rightarrow> Some z)"
proof -
  from assms have p: "0 \<le> p" and l: "locate wordSize None (allWords layout) p = Inr d"
    by (simp_all add: atWord_def split: if_splits)
  from locate_decomp[OF l p] show ?thesis .
qed

lemma atWord_at:
  assumes "allWords layout = ys @ x # zs" and "0 \<le> j" and "j < int (wordSize x)"
  shows "atWord layout (int (sum_list (map wordSize ys)) + j) =
           Inr \<lparr> node = x, nodePosition = j,
                 previousCrossParentSibling = (if ys = [] then None else Some (last ys)),
                 nextCrossParentSibling = (case zs of [] \<Rightarrow> None | z # zs' \<Rightarrow> Some z) \<rparr>"
proof -
  from assms(2) have "\<not> int (sum_list (map wordSize ys)) + j < 0" by simp
  with locate_at[where sz = wordSize and x = x and j = j and prev = None and ys = ys and zs = zs,
      OF assms(2,3)] assms(1)
  show ?thesis by (simp add: atWord_def)
qed

lemma atLine_decomp:
  assumes "atLine layout p = Inr d"
  shows "\<exists>ys zs. allLines layout = ys @ node d # zs \<and>
           p = int (sum_list (map layoutLineSize ys)) + nodePosition d \<and>
           0 \<le> nodePosition d \<and> nodePosition d < int (layoutLineSize (node d)) \<and>
           previousCrossParentSibling d = (if ys = [] then None else Some (last ys)) \<and>
           nextCrossParentSibling d = (case zs of [] \<Rightarrow> None | z # zs' \<Rightarrow> Some z)"
proof -
  from assms have p: "0 \<le> p" and l: "locate layoutLineSize None (allLines layout) p = Inr d"
    by (simp_all add: atLine_def split: if_splits)
  from locate_decomp[OF l p] show ?thesis .
qed

lemma atLine_at:
  assumes "allLines layout = ys @ x # zs" and "0 \<le> j" and "j < int (layoutLineSize x)"
  shows "atLine layout (int (sum_list (map layoutLineSize ys)) + j) =
           Inr \<lparr> node = x, nodePosition = j,
                 previousCrossParentSibling = (if ys = [] then None else Some (last ys)),
                 nextCrossParentSibling = (case zs of [] \<Rightarrow> None | z # zs' \<Rightarrow> Some z) \<rparr>"
proof -
  from assms(2) have "\<not> int (sum_list (map layoutLineSize ys)) + j < 0" by simp
  with locate_at[where sz = layoutLineSize and x = x and j = j and prev = None and ys = ys
      and zs = zs, OF assms(2,3)] assms(1)
  show ?thesis by (simp add: atLine_def)
qed

lemma word_round_trip_inside:
  assumes d: "atWord layout p = Inr d" and pos: "0 < nodePosition d"
    and sz: "2 \<le> wordSize (node d)"
  shows "nextAfterPreviousWord p layout = Inr (p - nodePosition d + int (trimmedSize (node d)))"
proof -
  from atWord_decomp[OF d] obtain ys zs where
    w: "allWords layout = ys @ node d # zs"
    and p: "p = int (sum_list (map wordSize ys)) + nodePosition d" by blast
  from d pos have prev: "atPreviousWord p layout = Inr (p - nodePosition d)"
    by (simp add: atPreviousWord_def)
  from sz have "(0::int) \<le> 0" "0 < int (wordSize (node d))" by simp_all
  from atWord_at[OF w this] p
  have "atWord layout (p - nodePosition d) =
      Inr \<lparr> node = node d, nodePosition = 0,
            previousCrossParentSibling = (if ys = [] then None else Some (last ys)),
            nextCrossParentSibling = (case zs of [] \<Rightarrow> None | z # zs' \<Rightarrow> Some z) \<rparr>"
    by simp
  with sz have "atNextWord (p - nodePosition d) layout =
      Inr (p - nodePosition d + int (trimmedSize (node d)))"
    by (simp add: atNextWord_def)
  with prev show ?thesis by (simp add: nextAfterPreviousWord_def)
qed

lemma word_round_trip_at_start:
  assumes d: "atWord layout p = Inr d" and pos: "nodePosition d = 0"
    and pv: "previousCrossParentSibling d = Some v" and sz: "2 \<le> wordSize v"
  shows "nextAfterPreviousWord p layout = Inr (p - int (wordSize v) + int (trimmedSize v))"
proof -
  from atWord_decomp[OF d] obtain ys zs where
    w: "allWords layout = ys @ node d # zs"
    and p: "p = int (sum_list (map wordSize ys)) + nodePosition d"
    and pr: "previousCrossParentSibling d = (if ys = [] then None else Some (last ys))" by blast
  from pr pv have ne: "ys \<noteq> []" and lst: "last ys = v" by (auto split: if_splits)
  then have ys: "ys = butlast ys @ [v]" by (metis append_butlast_last_id)
  from d pos pv have prev: "atPreviousWord p layout = Inr (p - int (wordSize v))"
    by (simp add: atPreviousWord_def)
  from w ys have w': "allWords layout = butlast ys @ v # (node d # zs)"
    by (metis append.assoc append_Cons append_Nil)
  from sz have j: "(0::int) \<le> 0" "0 < int (wordSize v)" by simp_all
  have "sum_list (map wordSize ys) = sum_list (map wordSize (butlast ys)) + wordSize v"
    by (subst ys) simp
  with p pos have q: "p - int (wordSize v) = int (sum_list (map wordSize (butlast ys))) + 0"
    by simp
  from atWord_at[OF w' j] q
  have "atWord layout (p - int (wordSize v)) =
      Inr \<lparr> node = v, nodePosition = 0,
            previousCrossParentSibling = (if butlast ys = [] then None else Some (last (butlast ys))),
            nextCrossParentSibling = Some (node d) \<rparr>"
    by simp
  with sz have "atNextWord (p - int (wordSize v)) layout =
      Inr (p - int (wordSize v) + int (trimmedSize v))"
    by (simp add: atNextWord_def)
  with prev show ?thesis by (simp add: nextAfterPreviousWord_def)
qed

lemma line_round_trip:
  assumes d: "atLine layout p = Inr d"
    and pv: "previousCrossParentSibling d = Some v"
    and c0: "0 \<le> convertCoordinatesToPosition v lock 0"
    and c1: "convertCoordinatesToPosition v lock 0 < int (layoutLineSize v)"
  shows "nextAfterPreviousLine p lock layout =
           Inr (p - nodePosition d + convertCoordinatesToPosition (node d) lock 0)"
proof -
  let ?c = "convertCoordinatesToPosition v lock 0"
  from atLine_decomp[OF d] obtain ys zs where
    w: "allLines layout = ys @ node d # zs"
    and p: "p = int (sum_list (map layoutLineSize ys)) + nodePosition d"
    and pr: "previousCrossParentSibling d = (if ys = [] then None else Some (last ys))" by blast
  from pr pv have ne: "ys \<noteq> []" and lst: "last ys = v" by (auto split: if_splits)
  then have ys: "ys = butlast ys @ [v]" by (metis append_butlast_last_id)
  from d pv have prev: "atPreviousLine p lock layout =
      Inr (p - nodePosition d - int (layoutLineSize v) + ?c)"
    by (simp add: atPreviousLine_def)
  from w ys have w': "allLines layout = butlast ys @ v # (node d # zs)"
    by (metis append.assoc append_Cons append_Nil)
  have "sum_list (map layoutLineSize ys) = sum_list (map layoutLineSize (butlast ys)) + layoutLineSize v"
    by (subst ys) simp
  with p have q: "p - nodePosition d - int (layoutLineSize v) + ?c =
      int (sum_list (map layoutLineSize (butlast ys))) + ?c"
    by simp
  from atLine_at[OF w' c0 c1] q
  have "atLine layout (p - nodePosition d - int (layoutLineSize v) + ?c) =
      Inr \<lparr> node = v, nodePosition = ?c,
            previousCrossParentSibling = (if butlast ys = [] then None else Some (last (butlast ys))),
            nextCrossParentSibling = Some (node d) \<rparr>"
    by simp
  then have "atNextLine (p - nodePosition d - int (layoutLineSize v) + ?c) lock layout =
      Inr (p - nodePosition d + convertCoordinatesToPosition (node d) lock 0)"
    by (simp add: atNextLine_def)
  with prev show ?thesis by (simp add: nextAfterPreviousLine_def)
qed



text \<open>
  Against claim C5 as stated, on the example layout: from position 3, inside "Hello ",
  and from position 6, the start of "world ", the word round trip ends at 5; from
  position 13 with left lock 0 the line round trip ends at 12, and from position 1 on
  the first line with left lock 1 it ends at 13.
\<close>

theorem C5_counterexample:
  "nextAfterPreviousWord 3 exampleLayout = Inr 5 \<and>
   nextAfterPreviousWord 6 exampleLayout = Inr 5 \<and>
   nextAfterPreviousLine 13 0 exampleLayout = Inr 12 \<and>
   nextAfterPreviousLine 1 1 exampleLayout = Inr 13"
  by (simp add: nextAfterPreviousWord_def atPreviousWord_def atNextWord_def atWord_def
      nextAfterPreviousLine_def atPreviousLine_def atNextLine_def atLine_def
      allWords_def allLines_def layoutLineSize_def
      exampleLayout_def exampleLine1_def exampleLine2_def)

text \<open>
  Claim C5, amended. For a position inside a word of at least two positions (not at its
  start), \<open>atNextWord(atPreviousWord(p))\<close> is the start of that word plus its trimmed
  size, so it is \<open>p\<close> exactly when \<open>p\<close> is the trimmed end of its word. For a position at
  the start of a word whose previous word has at least two positions, it is the trimmed
  end of the previous word, so it is \<open>p\<close> exactly when the previous word has nothing
  trimmed. For a position on a line that has a previous line in which the left lock
  converts to a position of that line, \<open>atNextLine(atPreviousLine(p))\<close> is the start of
  \<open>p\<close>'s line plus the position the left lock converts to on that line, so it is \<open>p\<close>
  exactly when \<open>p\<close> is at that position of its line.
\<close>

theorem C5_round_trip_lands_on_the_trimmed_end:
  "(atWord layout p1 = Inr d1 \<and> 0 < nodePosition d1 \<and> 2 \<le> wordSize (node d1) \<longrightarrow>
      nextAfterPreviousWord p1 layout =
        Inr (p1 - nodePosition d1 + int (trimmedSize (node d1))) \<and>
      (nextAfterPreviousWord p1 layout = Inr p1 \<longleftrightarrow>
         nodePosition d1 = int (trimmedSize (node d1)))) \<and>
   (atWord layout p2 = Inr d2 \<and> nodePosition d2 = 0 \<and>
    previousCrossParentSibling d2 = Some v \<and> 2 \<le> wordSize v \<longrightarrow>
      nextAfterPreviousWord p2 layout = Inr (p2 - int (wordSize v) + int (trimmedSize v)) \<and>
      (nextAfterPreviousWord p2 layout = Inr p2 \<longleftrightarrow> trimmedSize v = wordSize v)) \<and>
   (atLine layout p3 = Inr d3 \<and> previousCrossParentSibling d3 = Some u \<and>
    0 \<le> convertCoordinatesToPosition u lock 0 \<and>
    convertCoordinatesToPosition u lock 0 < int (layoutLineSize u) \<longrightarrow>
      nextAfterPreviousLine p3 lock layout =
        Inr (p3 - nodePosition d3 + convertCoordinatesToPosition (node d3) lock 0) \<and>
      (nextAfterPreviousLine p3 lock layout = Inr p3 \<longleftrightarrow>
         nodePosition d3 = convertCoordinatesToPosition (node d3) lock 0))"
proof (intro conjI impI)
  assume h: "atWord layout p1 = Inr d1 \<and> 0 < nodePosition d1 \<and> 2 \<le> wordSize (node d1)"
  then have r: "nextAfterPreviousWord p1 layout =
      Inr (p1 - nodePosition d1 + int (trimmedSize (node d1)))"
    by (simp add: word_round_trip_inside)
  then show "nextAfterPreviousWord p1 layout =
      Inr (p1 - nodePosition d1 + int (trimmedSize (node d1)))" .
  from r show "nextAfterPreviousWord p1 layout = Inr p1 \<longleftrightarrow>
      nodePosition d1 = int (trimmedSize (node d1))"
    by auto
next
  assume h: "atWord layout p2 = Inr d2 \<and> nodePosition d2 = 0 \<and>
    previousCrossParentSibling d2 = Some v \<and> 2 \<le> wordSize v"
  then have r: "nextAfterPreviousWord p2 layout =
      Inr (p2 - int (wordSize v) + int (trimmedSize v))"
    by (simp add: word_round_trip_at_start)
  then show "nextAfterPreviousWord p2 layout =
      Inr (p2 - int (wordSize v) + int (trimmedSize v))" .
  from r show "nextAfterPreviousWord p2 layout = Inr p2 \<longleftrightarrow> trimmedSize v = wordSize v"
    by auto
next
  assume h: "atLine layout p3 = Inr d3 \<and> previousCrossParentSibling d3 = Some u \<and>
    0 \<le> convertCoordinatesToPosition u lock 0 \<and>
    convertCoordinatesToPosition u lock 0 < int (layoutLineSize u)"
  then have r: "nextAfterPreviousLine p3 lock layout =
      Inr (p3 - nodePosition d3 + convertCoordinatesToPosition (node d3) lock 0)"
    by (simp add: line_round_trip)
  then show "nextAfterPreviousLine p3 lock layout =
      Inr (p3 - nodePosition d3 + convertCoordinatesToPosition (node d3) lock 0)" .
  from r show "nextAfterPreviousLine p3 lock layout = Inr p3 \<longleftrightarrow>
      nodePosition d3 = convertCoordinatesToPosition (node d3) lock 0"
    by auto
qed

lemma example_atWord:
  "atWord exampleLayout 5 =
     Inr \<lparr> node = \<lparr> wordSize = 6, trimmedSize = 5 \<rparr>, nodePosition = 5,
           previousCrossParentSibling = None,
           nextCrossParentSibling = Some \<lparr> wordSize = 6, trimmedSize = 5 \<rparr> \<rparr>"
  "atWord exampleLayout 6 =
     Inr \<lparr> node = \<lparr> wordSize = 6, trimmedSize = 5 \<rparr>, nodePosition = 0,
           previousCrossParentSibling = Some \<lparr> wordSize = 6, trimmedSize = 5 \<rparr>,
           nextCrossParentSibling = Some \<lparr> wordSize = 3, trimmedSize = 3 \<rparr> \<rparr>"
  "atWord exampleLayout 0 =
     Inr \<lparr> node = \<lparr> wordSize = 6, trimmedSize = 5 \<rparr>, nodePosition = 0,
           previousCrossParentSibling = None,
           nextCrossParentSibling = Some \<lparr> wordSize = 6, trimmedSize = 5 \<rparr> \<rparr>"
  "atWord exampleLayout 14 =
     Inr \<lparr> node = \<lparr> wordSize = 3, trimmedSize = 3 \<rparr>, nodePosition = 2,
           previousCrossParentSibling = Some \<lparr> wordSize = 6, trimmedSize = 5 \<rparr>,
           nextCrossParentSibling = None \<rparr>"
  by (simp_all add: atWord_def allWords_def allLines_def exampleLayout_def exampleLine1_def
      exampleLine2_def)

lemma example_atLine:
  "atLine exampleLayout 13 =
     Inr \<lparr> node = exampleLine2, nodePosition = 1,
           previousCrossParentSibling = Some exampleLine1,
           nextCrossParentSibling = None \<rparr>"
  by (simp add: atLine_def allLines_def exampleLayout_def layoutLineSize_def exampleLine1_def
      exampleLine2_def)

text \<open>
  On the example layout: position 5 is the trimmed end of "Hello " and the round trip
  gives it back; from position 6 it gives 5; position 13 is at column 1 of the second
  line and with left lock 1 the line round trip gives it back.
\<close>

theorem C5_witness:
  "atWord exampleLayout 5 =
     Inr \<lparr> node = \<lparr> wordSize = 6, trimmedSize = 5 \<rparr>, nodePosition = 5,
           previousCrossParentSibling = None,
           nextCrossParentSibling = Some \<lparr> wordSize = 6, trimmedSize = 5 \<rparr> \<rparr> \<and>
   nextAfterPreviousWord 5 exampleLayout = Inr 5 \<and>
   atWord exampleLayout 6 =
     Inr \<lparr> node = \<lparr> wordSize = 6, trimmedSize = 5 \<rparr>, nodePosition = 0,
           previousCrossParentSibling = Some \<lparr> wordSize = 6, trimmedSize = 5 \<rparr>,
           nextCrossParentSibling = Some \<lparr> wordSize = 3, trimmedSize = 3 \<rparr> \<rparr> \<and>
   nextAfterPreviousWord 6 exampleLayout = Inr 5 \<and>
   atLine exampleLayout 13 =
     Inr \<lparr> node = exampleLine2, nodePosition = 1,
           previousCrossParentSibling = Some exampleLine1,
           nextCrossParentSibling = None \<rparr> \<and>
   0 \<le> convertCoordinatesToPosition exampleLine1 1 0 \<and>
   convertCoordinatesToPosition exampleLine1 1 0 < int (layoutLineSize exampleLine1) \<and>
   nextAfterPreviousLine 13 1 exampleLayout = Inr 13"
proof -
  let ?d1 = "\<lparr> node = \<lparr> wordSize = 6, trimmedSize = 5 \<rparr>, nodePosition = 5,
           previousCrossParentSibling = None,
           nextCrossParentSibling = Some \<lparr> wordSize = 6, trimmedSize = 5 \<rparr> \<rparr>"
  let ?d2 = "\<lparr> node = \<lparr> wordSize = 6, trimmedSize = 5 \<rparr>, nodePosition = 0,
           previousCrossParentSibling = Some \<lparr> wordSize = 6, trimmedSize = 5 \<rparr>,
           nextCrossParentSibling = Some \<lparr> wordSize = 3, trimmedSize = 3 \<rparr> \<rparr>"
  let ?d3 = "\<lparr> node = exampleLine2, nodePosition = 1,
           previousCrossParentSibling = Some exampleLine1,
           nextCrossParentSibling = None \<rparr>"
  have c: "0 \<le> convertCoordinatesToPosition exampleLine1 1 0"
    "convertCoordinatesToPosition exampleLine1 1 0 < int (layoutLineSize exampleLine1)"
    by (simp_all add: exampleLine1_def layoutLineSize_def)
  have c2: "convertCoordinatesToPosition exampleLine2 1 0 = 1"
    by (simp add: exampleLine2_def)
  from C5_round_trip_lands_on_the_trimmed_end
         [of exampleLayout 5 ?d1 6 ?d2 "\<lparr> wordSize = 6, trimmedSize = 5 \<rparr>" 13 ?d3 exampleLine1 1]
       example_atWord(1,2) example_atLine c c2
  show ?thesis by simp
qed



lemma atPreviousWord_document_start:
  assumes "allWords layout = w # ws" and "0 < wordSize w"
  shows "atPreviousWord 0 layout = Inr 0"
proof -
  from assms(1) have a: "allWords layout = [] @ w # ws" by simp
  from assms(2) have j: "(0::int) \<le> 0" "0 < int (wordSize w)" by simp_all
  from atWord_at[OF a j] show ?thesis by (simp add: atPreviousWord_def)
qed

lemma atNextWord_document_end:
  assumes "allWords layout = ws @ [w]" and "0 < wordSize w"
  shows "atNextWord (int (sum_list (map wordSize (allWords layout))) - 1) layout =
           Inr (int (sum_list (map wordSize (allWords layout))) - 1)"
proof -
  from assms(1) have a: "allWords layout = ws @ w # []" by simp
  from assms(2) have j: "0 \<le> int (wordSize w) - 1" "int (wordSize w) - 1 < int (wordSize w)"
    by simp_all
  from assms(1) have e: "int (sum_list (map wordSize (allWords layout))) - 1 =
      int (sum_list (map wordSize ws)) + (int (wordSize w) - 1)" by simp
  from atWord_at[OF a j] show ?thesis unfolding e by (simp add: atNextWord_def)
qed

text \<open>
  Claim C6. \<open>atPreviousWord\<close> at the start of a word that has no previous cross-parent
  sibling returns the position it was given, and so does \<open>atNextWord\<close> at the last
  position of a word that has no next cross-parent sibling; in particular at position 0
  of a layout whose first word is not empty and at the last position of a layout whose
  last word is not empty. In a document view that covers at least one position,
  \<open>getWordStartPosition\<close> at position 0 and \<open>getWordEndPosition\<close> at the last position
  \<open>getSize() - 1\<close> return the position they were given. None of them throws.
\<close>

theorem C6_no_movement_at_the_document_ends:
  "(atWord layout p = Inr d \<and> nodePosition d = 0 \<and> previousCrossParentSibling d = None \<longrightarrow>
      atPreviousWord p layout = Inr p) \<and>
   (atWord layout q = Inr e \<and> int (wordSize (node e)) - 1 \<le> nodePosition e \<and>
    nextCrossParentSibling e = None \<longrightarrow>
      atNextWord q layout = Inr q) \<and>
   (allWords layout = w # ws \<and> 0 < wordSize w \<longrightarrow> atPreviousWord 0 layout = Inr 0) \<and>
   (allWords layout = ws' @ [w'] \<and> 0 < wordSize w' \<longrightarrow>
      atNextWord (int (sum_list (map wordSize (allWords layout))) - 1) layout =
        Inr (int (sum_list (map wordSize (allWords layout))) - 1)) \<and>
   (0 < pagesSize (pageViews dv) \<longrightarrow>
      getWordStartPosition dv 0 = Inr 0 \<and>
      getWordEndPosition dv (int (documentSize dv) - 1) = Inr (int (documentSize dv) - 1))"
proof (intro conjI impI)
  assume "atWord layout p = Inr d \<and> nodePosition d = 0 \<and> previousCrossParentSibling d = None"
  then show "atPreviousWord p layout = Inr p" by (simp add: atPreviousWord_def)
next
  assume "atWord layout q = Inr e \<and> int (wordSize (node e)) - 1 \<le> nodePosition e \<and>
    nextCrossParentSibling e = None"
  then show "atNextWord q layout = Inr q" by (simp add: atNextWord_def)
next
  assume "allWords layout = w # ws \<and> 0 < wordSize w"
  then show "atPreviousWord 0 layout = Inr 0" by (simp add: atPreviousWord_document_start)
next
  assume "allWords layout = ws' @ [w'] \<and> 0 < wordSize w'"
  then have "allWords layout = ws' @ [w']" "0 < wordSize w'" by simp_all
  then show "atNextWord (int (sum_list (map wordSize (allWords layout))) - 1) layout =
        Inr (int (sum_list (map wordSize (allWords layout))) - 1)"
    by (rule atNextWord_document_end)
next
  assume "0 < pagesSize (pageViews dv)"
  then show "getWordStartPosition dv 0 = Inr 0" by (rule getWordStartPosition_first)
next
  assume "0 < pagesSize (pageViews dv)"
  then show "getWordEndPosition dv (int (documentSize dv) - 1) = Inr (int (documentSize dv) - 1)"
    by (rule getWordEndPosition_last)
qed

text \<open>
  The example layout at its positions 0 and 14, and the example document view at its
  positions 0 and 13.
\<close>

theorem C6_witness:
  "atWord exampleLayout 0 =
     Inr \<lparr> node = \<lparr> wordSize = 6, trimmedSize = 5 \<rparr>, nodePosition = 0,
           previousCrossParentSibling = None,
           nextCrossParentSibling = Some \<lparr> wordSize = 6, trimmedSize = 5 \<rparr> \<rparr> \<and>
   atPreviousWord 0 exampleLayout = Inr 0 \<and>
   atWord exampleLayout 14 =
     Inr \<lparr> node = \<lparr> wordSize = 3, trimmedSize = 3 \<rparr>, nodePosition = 2,
           previousCrossParentSibling = Some \<lparr> wordSize = 6, trimmedSize = 5 \<rparr>,
           nextCrossParentSibling = None \<rparr> \<and>
   atNextWord 14 exampleLayout = Inr 14 \<and>
   allWords exampleLayout =
     \<lparr> wordSize = 6, trimmedSize = 5 \<rparr> #
       [\<lparr> wordSize = 6, trimmedSize = 5 \<rparr>, \<lparr> wordSize = 3, trimmedSize = 3 \<rparr>] \<and>
   allWords exampleLayout =
     [\<lparr> wordSize = 6, trimmedSize = 5 \<rparr>, \<lparr> wordSize = 6, trimmedSize = 5 \<rparr>] @
       [\<lparr> wordSize = 3, trimmedSize = 3 \<rparr>] \<and>
   int (sum_list (map wordSize (allWords exampleLayout))) - 1 = 14 \<and>
   0 < pagesSize (pageViews exampleView) \<and>
   getWordStartPosition exampleView 0 = Inr 0 \<and>
   getWordEndPosition exampleView 13 = Inr 13"
proof -
  let ?d = "\<lparr> node = \<lparr> wordSize = 6, trimmedSize = 5 \<rparr>, nodePosition = 0,
           previousCrossParentSibling = None,
           nextCrossParentSibling = Some \<lparr> wordSize = 6, trimmedSize = 5 \<rparr> \<rparr>"
  let ?e = "\<lparr> node = \<lparr> wordSize = 3, trimmedSize = 3 \<rparr>, nodePosition = 2,
           previousCrossParentSibling = Some \<lparr> wordSize = 6, trimmedSize = 5 \<rparr>,
           nextCrossParentSibling = None \<rparr>"
  have w: "allWords exampleLayout =
     \<lparr> wordSize = 6, trimmedSize = 5 \<rparr> #
       [\<lparr> wordSize = 6, trimmedSize = 5 \<rparr>, \<lparr> wordSize = 3, trimmedSize = 3 \<rparr>]"
    "allWords exampleLayout =
     [\<lparr> wordSize = 6, trimmedSize = 5 \<rparr>, \<lparr> wordSize = 6, trimmedSize = 5 \<rparr>] @
       [\<lparr> wordSize = 3, trimmedSize = 3 \<rparr>]"
    by (simp_all add: allWords_def allLines_def exampleLayout_def exampleLine1_def
        exampleLine2_def)
  have s: "int (sum_list (map wordSize (allWords exampleLayout))) - 1 = 14"
    by (simp add: w(1))
  have g: "0 < pagesSize (pageViews exampleView)"
    by (simp add: pagesSize_def pageSize_def lineSize_def exampleView_def helloBox_def
        worldBox_def fooBox_def)
  have ds: "int (documentSize exampleView) - 1 = 13" by (simp add: exampleView_def)
  from C6_no_movement_at_the_document_ends
         [of exampleLayout 0 ?d 14 ?e "\<lparr> wordSize = 6, trimmedSize = 5 \<rparr>"
             "[\<lparr> wordSize = 6, trimmedSize = 5 \<rparr>, \<lparr> wordSize = 3, trimmedSize = 3 \<rparr>]"
             "[\<lparr> wordSize = 6, trimmedSize = 5 \<rparr>, \<lparr> wordSize = 6, trimmedSize = 5 \<rparr>]"
             "\<lparr> wordSize = 3, trimmedSize = 3 \<rparr>" exampleView]
       example_atWord(3,4) w s g ds
  show ?thesis by simp
qed


section \<open>Properties of the cursor commands\<close>


text \<open>
  Claim C7. On a cursor with \<open>anchor \<noteq> head\<close>, \<open>MoveBackwardCommandHandler\<close> submits a
  transformation whose position is \<open>min(anchor, head)\<close> and \<open>MoveForwardCommandHandler\<close>
  one whose position is \<open>max(anchor, head)\<close>: the end of the range in the direction of the
  move, not a step beyond the head.
\<close>

theorem C7_move_collapses_selection:
  assumes "anchor c \<noteq> head c"
  shows "MoveBackwardCommandHandler (Some c) =
           Some (newTransformation [] (min (anchor c) (head c)) None False) \<and>
         MoveForwardCommandHandler (Some c) =
           Some (newTransformation [] (max (anchor c) (head c)) None False)"
  using assms by (simp add: MoveBackwardCommandHandler_def MoveForwardCommandHandler_def)

text \<open>A selection from 7 back to 2 collapses to 2 backward and to 7 forward.\<close>

theorem C7_witness:
  "anchor \<lparr> anchor = 7, head = 2, leftLock = 0 \<rparr> \<noteq> head \<lparr> anchor = 7, head = 2, leftLock = 0 \<rparr> \<and>
   MoveBackwardCommandHandler (Some \<lparr> anchor = 7, head = 2, leftLock = 0 \<rparr>) =
     Some \<lparr> operations = [], targetHead = 2, targetAnchor = None, keepLeftLock = False \<rparr> \<and>
   MoveForwardCommandHandler (Some \<lparr> anchor = 7, head = 2, leftLock = 0 \<rparr>) =
     Some \<lparr> operations = [], targetHead = 7, targetAnchor = None, keepLeftLock = False \<rparr>"
proof -
  have h: "anchor \<lparr> anchor = 7, head = 2, leftLock = 0 \<rparr> \<noteq> head \<lparr> anchor = 7, head = 2, leftLock = 0 \<rparr>"
    by simp
  from C7_move_collapses_selection[OF h] h show ?thesis
    by (simp add: newTransformation_def)
qed

text \<open>
  Claim C3. The claim asks that a move whose target is outside the document is stopped
  or clamped by the handler. \<open>MoveBackwardCommandHandler\<close> on a caret at offset 0 submits
  position -1, and \<open>MoveForwardCommandHandler\<close> on a caret at the last position 9 of a
  document of content size 10 submits position 10, whereas the handlers that move the
  head only, \<open>MoveHeadBackwardCommandHandler\<close> and \<open>MoveHeadForward\<close>, clamp to 0 and to
  \<open>contentSize - 1\<close> on the same cursors.
\<close>

theorem C3_move_backward_at_document_start:
  "MoveBackwardCommandHandler (Some \<lparr> anchor = 0, head = 0, leftLock = 0 \<rparr>) =
     Some \<lparr> operations = [], targetHead = - 1, targetAnchor = None, keepLeftLock = False \<rparr> \<and>
   MoveHeadBackwardCommandHandler (Some \<lparr> anchor = 0, head = 0, leftLock = 0 \<rparr>) =
     Some \<lparr> operations = [], targetHead = 0, targetAnchor = Some 0, keepLeftLock = False \<rparr> \<and>
   MoveForwardCommandHandler (Some \<lparr> anchor = 9, head = 9, leftLock = 0 \<rparr>) =
     Some \<lparr> operations = [], targetHead = 10, targetAnchor = None, keepLeftLock = False \<rparr> \<and>
   MoveHeadForward 10 (Some \<lparr> anchor = 9, head = 9, leftLock = 0 \<rparr>) =
     Some \<lparr> operations = [], targetHead = 9, targetAnchor = Some 9, keepLeftLock = False \<rparr>"
  by (simp add: MoveBackwardCommandHandler_def MoveHeadBackwardCommandHandler_def
      MoveForwardCommandHandler_def MoveHeadForward_def newTransformation_def)


section \<open>Properties of DocView\<close>

lemma insert_at_differs:
  assumes "k < length xs" and "c \<notin> set xs"
  shows "xs @ [c] \<noteq> take k xs @ [c] @ drop k xs"
proof
  assume e: "xs @ [c] = take k xs @ [c] @ drop k xs"
  from assms(1) have "(xs @ [c]) ! k = xs ! k" by (simp add: nth_append)
  moreover from assms(1) have "(take k xs @ [c] @ drop k xs) ! k = c"
    by (simp add: nth_append)
  ultimately have "xs ! k = c" using e by simp
  with assms show False using nth_mem by metis
qed

text \<open>
  Claim C10. \<open>DocView.insertChild\<close> puts the child at the end of the children whatever
  the offset, also when it throws; it throws exactly when the offset is greater than the
  number of child nodes of the DOM container; and for an offset from 0 below the number
  of children and a child that is not yet among them, \<open>getChildren()\<close> after the call
  differs from the children with the child inserted at the offset.
\<close>

theorem C10_insertChild_appends_whatever_the_offset:
  "docViewGetChildren (fst (docViewInsertChild child offset v)) = docViewGetChildren v @ [child] \<and>
   (snd (docViewInsertChild child offset v) = Some OutOfRange \<longleftrightarrow>
      offset > int (length (childNodes v))) \<and>
   (0 \<le> offset \<and> offset < int (length (docViewGetChildren v)) \<and> child \<notin> set (docViewGetChildren v)
      \<longrightarrow> docViewGetChildren (fst (docViewInsertChild child offset v))
            \<noteq> spliceInsert offset child (docViewGetChildren v))"
proof -
  have a: "docViewGetChildren (fst (docViewInsertChild child offset v)) = docViewGetChildren v @ [child]"
    by (simp add: docViewInsertChild_def docViewGetChildren_def Let_def)
  have b: "snd (docViewInsertChild child offset v) = Some OutOfRange \<longleftrightarrow>
      offset > int (length (childNodes v))"
    by (simp add: docViewInsertChild_def Let_def)
  have c: "docViewGetChildren (fst (docViewInsertChild child offset v))
            \<noteq> spliceInsert offset child (docViewGetChildren v)"
    if h: "0 \<le> offset \<and> offset < int (length (docViewGetChildren v)) \<and> child \<notin> set (docViewGetChildren v)"
  proof -
    from h have k: "nat offset < length (docViewGetChildren v)" by linarith
    from h have s: "spliceInsert offset child (docViewGetChildren v) =
        take (nat offset) (docViewGetChildren v) @ [child] @ drop (nat offset) (docViewGetChildren v)"
      by (auto simp add: spliceInsert_def Let_def min_def)
    from h have "child \<notin> set (docViewGetChildren v)" by simp
    from insert_at_differs[OF k this] a s show ?thesis by simp
  qed
  from a b c show ?thesis by blast
qed

lemma exampleDocView_eq: "exampleDocView =
   \<lparr> viewChildren = [\<lparr> getDOMContainer = 1 \<rparr>, \<lparr> getDOMContainer = 2 \<rparr>], childNodes = [1, 2] \<rparr>"
  by (simp add: exampleDocView_def docViewInsertChild_def Let_def appendChild_def)

text \<open>
  A third page view inserted at offset 0 of a view with two children ends up last, in the
  children and in the DOM; inserted at offset 3 the call throws and the child is among
  the children all the same.
\<close>

theorem C10_witness:
  "(0::int) \<le> 0 \<and> 0 < int (length (docViewGetChildren exampleDocView)) \<and>
   \<lparr> getDOMContainer = 3 \<rparr> \<notin> set (docViewGetChildren exampleDocView) \<and>
   docViewGetChildren (fst (docViewInsertChild \<lparr> getDOMContainer = 3 \<rparr> 0 exampleDocView)) =
     [\<lparr> getDOMContainer = 1 \<rparr>, \<lparr> getDOMContainer = 2 \<rparr>, \<lparr> getDOMContainer = 3 \<rparr>] \<and>
   spliceInsert 0 \<lparr> getDOMContainer = 3 \<rparr> (docViewGetChildren exampleDocView) =
     [\<lparr> getDOMContainer = 3 \<rparr>, \<lparr> getDOMContainer = 1 \<rparr>, \<lparr> getDOMContainer = 2 \<rparr>] \<and>
   childNodes (fst (docViewInsertChild \<lparr> getDOMContainer = 3 \<rparr> 0 exampleDocView)) = [1, 2, 3] \<and>
   snd (docViewInsertChild \<lparr> getDOMContainer = 3 \<rparr> 0 exampleDocView) = None \<and>
   snd (docViewInsertChild \<lparr> getDOMContainer = 3 \<rparr> 3 exampleDocView) = Some OutOfRange \<and>
   docViewGetChildren (fst (docViewInsertChild \<lparr> getDOMContainer = 3 \<rparr> 3 exampleDocView)) =
     [\<lparr> getDOMContainer = 1 \<rparr>, \<lparr> getDOMContainer = 2 \<rparr>, \<lparr> getDOMContainer = 3 \<rparr>] \<and>
   docViewGetChildren (fst (docViewInsertChild \<lparr> getDOMContainer = 3 \<rparr> 0 exampleDocView))
     \<noteq> spliceInsert 0 \<lparr> getDOMContainer = 3 \<rparr> (docViewGetChildren exampleDocView)"
proof -
  have h: "(0::int) \<le> 0 \<and> 0 < int (length (docViewGetChildren exampleDocView)) \<and>
     \<lparr> getDOMContainer = 3 \<rparr> \<notin> set (docViewGetChildren exampleDocView)"
    by (simp add: exampleDocView_eq docViewGetChildren_def)
  have e: "docViewGetChildren (fst (docViewInsertChild \<lparr> getDOMContainer = 3 \<rparr> 0 exampleDocView)) =
     [\<lparr> getDOMContainer = 1 \<rparr>, \<lparr> getDOMContainer = 2 \<rparr>, \<lparr> getDOMContainer = 3 \<rparr>]"
    "spliceInsert 0 \<lparr> getDOMContainer = 3 \<rparr> (docViewGetChildren exampleDocView) =
     [\<lparr> getDOMContainer = 3 \<rparr>, \<lparr> getDOMContainer = 1 \<rparr>, \<lparr> getDOMContainer = 2 \<rparr>]"
    "childNodes (fst (docViewInsertChild \<lparr> getDOMContainer = 3 \<rparr> 0 exampleDocView)) = [1, 2, 3]"
    "snd (docViewInsertChild \<lparr> getDOMContainer = 3 \<rparr> 0 exampleDocView) = None"
    "snd (docViewInsertChild \<lparr> getDOMContainer = 3 \<rparr> 3 exampleDocView) = Some OutOfRange"
    "docViewGetChildren (fst (docViewInsertChild \<lparr> getDOMContainer = 3 \<rparr> 3 exampleDocView)) =
     [\<lparr> getDOMContainer = 1 \<rparr>, \<lparr> getDOMContainer = 2 \<rparr>, \<lparr> getDOMContainer = 3 \<rparr>]"
    by (simp_all add: exampleDocView_eq docViewGetChildren_def docViewInsertChild_def Let_def
        spliceInsert_def appendChild_def insertBefore_def childNodeAt_def)
  from C10_insertChild_appends_whatever_the_offset
         [of "\<lparr> getDOMContainer = 3 \<rparr>" 0 exampleDocView] h
  have "docViewGetChildren (fst (docViewInsertChild \<lparr> getDOMContainer = 3 \<rparr> 0 exampleDocView))
     \<noteq> spliceInsert 0 \<lparr> getDOMContainer = 3 \<rparr> (docViewGetChildren exampleDocView)"
    by blast
  with h e show ?thesis by simp
qed


end
